theory Spec2Isabelle
  imports Main "HOL-Library.Word" "HOL-Library.AList" "HOL-Library.Sublist"
    "HOL-Library.Multiset" "HOL-Library.Char_ord" "HOL-Library.List_Lexorder"
    "HOL-Library.Product_Lexorder"
begin

unbundle bit_operations_syntax

section \<open>Mount plan builder: \<open>evaluateMounts\<close> (stage1 fly, run)\<close>

subsection \<open>Data model\<close>

text \<open>
  \<open>types.Volume.ReadOnly\<close> is a \<open>*bool\<close>. A pointer found in the pod manifest points to
  a boolean of its own (\<open>Own b\<close>); the only other address the function ever stores is
  \<open>&mp.ReadOnly\<close>, the address of a field of the loop variable \<open>mp\<close> of the second
  loop over the image's mount points (\<open>MpLoopVar\<close>). That variable is one storage
  location for the whole loop, assigned anew at every iteration.
\<close>

datatype boolPtr = NilPtr | Own bool | MpLoopVar

record Volume =
  vName :: string
  vSource :: string
  vReadOnly :: boolPtr

record Mount =
  mVolume :: string
  mPath :: string

record MountPoint =
  mpName :: string
  mpPath :: string
  mpReadOnly :: bool

record volumeMountTuple =
  tV :: Volume
  tM :: Mount

record flyMount =
  HostPath :: string
  TargetPrefixPath :: string
  RelTargetPath :: string
  Fs :: string
  Flags :: "64 word"

text \<open>
  \<open>schema.RuntimeApp\<close>: \<open>App\<close> is a pointer; \<open>appApp\<close> is \<open>None\<close> for a nil pointer and
  otherwise holds the \<open>Exec\<close> of the app, the only field of it the code reads.
\<close>

record RuntimeApp =
  appName :: string
  appApp :: "string list option"
  appMounts :: "Mount list"

text \<open>
  \<open>Pod\<close>: the projections of \<open>stage1commontypes.Pod\<close> that the code reads.
  \<open>Images\<close> is a Go map to pointers to image manifests, whose \<open>App\<close> field is a pointer
  again: the outer \<open>option\<close> is the map lookup, the inner one the \<open>App\<close> pointer.
\<close>

record Pod =
  Root :: string
  Apps :: "RuntimeApp list"
  Volumes :: "Volume list"
  Images :: "string \<Rightarrow> MountPoint list option option"

text \<open>The mount flags of Go's \<open>syscall\<close> package on Linux.\<close>

definition MS_RDONLY :: "64 word" where "MS_RDONLY = 1"
definition MS_REMOUNT :: "64 word" where "MS_REMOUNT = 32"
definition MS_BIND :: "64 word" where "MS_BIND = 4096"
definition MS_REC :: "64 word" where "MS_REC = 16384"
definition MS_PRIVATE :: "64 word" where "MS_PRIVATE = 262144"
definition MS_SHARED :: "64 word" where "MS_SHARED = 1048576"

text \<open>
  How a call ends: \<open>log.Fatalf\<close> prints and calls \<open>os.Exit(1)\<close> (\<open>Exit\<close>: the process
  is gone, nothing returns to the caller); \<open>return nil, fmt.Errorf(...)\<close> is \<open>Error\<close>;
  a nil dereference or an index out of range is \<open>Panic\<close>.
\<close>

datatype failure =
    DuplicatedMount string
  | ConflictingPath string
  | MissingMount string
  | MismatchedPair string string
  | MissingVolume string

datatype 'a result = Ok 'a | Error failure | Exit failure | Panic

fun bind_result :: "'a result \<Rightarrow> ('a \<Rightarrow> 'b result) \<Rightarrow> 'b result" where
  "bind_result (Ok x) f = f x"
| "bind_result (Error e) f = Error e"
| "bind_result (Exit e) f = Exit e"
| "bind_result Panic f = Panic"

text \<open>
  \<open>namedVolumeMounts\<close> is a Go map. It is kept as an association list with one pair
  per key (\<open>AList.update\<close> overwrites in place or appends); the order in which
  \<open>range\<close> visits it is not the list's order but a parameter of \<open>evaluateMounts\<close>.
\<close>

type_synonym namedVolumeMounts = "(string \<times> volumeMountTuple) list"

definition zeroVolume :: Volume where
  "zeroVolume = \<lparr>vName = [], vSource = [], vReadOnly = NilPtr\<rparr>"

subsection \<open>The four loops\<close>

text \<open>Lines 133-140: the mounts of the first app.\<close>

fun seedMounts :: "Mount list \<Rightarrow> namedVolumeMounts \<Rightarrow> namedVolumeMounts result" where
  "seedMounts [] nv = Ok nv"
| "seedMounts (m # ms) nv =
     (case map_of nv (mVolume m) of
        Some t \<Rightarrow> Exit (DuplicatedMount (mVolume m))
      | None \<Rightarrow> seedMounts ms (AList.update (mVolume m) \<lparr>tV = zeroVolume, tM = m\<rparr> nv))"

text \<open>Lines 143-152: merge with the image manifest's mount points.\<close>

fun mergeMountPoints :: "MountPoint list \<Rightarrow> namedVolumeMounts \<Rightarrow> namedVolumeMounts result" where
  "mergeMountPoints [] nv = Ok nv"
| "mergeMountPoints (mp # mps) nv =
     (case map_of nv (mpName mp) of
        Some t \<Rightarrow>
          if mPath (tM t) \<noteq> mpPath mp then Error (ConflictingPath (mpName mp))
          else mergeMountPoints mps nv
      | None \<Rightarrow>
          mergeMountPoints mps
            (AList.update (mpName mp)
               \<lparr>tV = zeroVolume, tM = \<lparr>mVolume = mpName mp, mPath = mpPath mp\<rparr>\<rparr> nv))"

text \<open>Lines 155-166: insert the volumes.\<close>

fun insertVolumes :: "Volume list \<Rightarrow> namedVolumeMounts \<Rightarrow> namedVolumeMounts result" where
  "insertVolumes [] nv = Ok nv"
| "insertVolumes (v # vs) nv =
     (case map_of nv (vName v) of
        None \<Rightarrow> Error (MissingMount (vName v))
      | Some t \<Rightarrow>
          if mVolume (tM t) \<noteq> vName v then Error (MismatchedPair (vName v) (mVolume (tM t)))
          else insertVolumes vs (AList.update (vName v) \<lparr>tV = v, tM = tM t\<rparr> nv))"

text \<open>
  Lines 169-183: fill in the read-only bit. The third argument is the loop variable
  \<open>mp\<close>: \<open>None\<close> before the first iteration, afterwards the element of the current
  iteration. The pointer stored is the address of its field, not a copy of the value.
\<close>

fun fillReadOnly ::
  "MountPoint list \<Rightarrow> namedVolumeMounts \<Rightarrow> MountPoint option \<Rightarrow>
   (namedVolumeMounts \<times> MountPoint option) result" where
  "fillReadOnly [] nv cur = Ok (nv, cur)"
| "fillReadOnly (mp # mps) nv cur =
     (case map_of nv (mpName mp) of
        None \<Rightarrow> Exit (MissingVolume (mpName mp))
      | Some t \<Rightarrow>
          if vName (tV t) = [] then Exit (MissingVolume (mpName mp))
          else if vReadOnly (tV t) = NilPtr then
            fillReadOnly mps
              (AList.update (mpName mp) \<lparr>tV = (tV t)\<lparr>vReadOnly := MpLoopVar\<rparr>, tM = tM t\<rparr> nv)
              (Some mp)
          else fillReadOnly mps nv (Some mp))"

subsection \<open>Emitting the mounts\<close>

text \<open>\<open>tuple.V.ReadOnly != nil && *tuple.V.ReadOnly\<close>, read after the loops have finished.\<close>

fun readOnlySet :: "MountPoint option \<Rightarrow> boolPtr \<Rightarrow> bool" where
  "readOnlySet cur NilPtr = False"
| "readOnlySet cur (Own b) = b"
| "readOnlySet cur MpLoopVar = (case cur of None \<Rightarrow> False | Some mp \<Rightarrow> mpReadOnly mp)"

definition bindFlags :: "64 word" where
  "bindFlags = MS_BIND OR MS_REC"

text \<open>Lines 187-200, the body of the loop over the map, for one tuple.\<close>

definition tupleMounts :: "string \<Rightarrow> MountPoint option \<Rightarrow> volumeMountTuple \<Rightarrow> flyMount list" where
  "tupleMounts rfs cur t =
     [\<lparr>HostPath = [], TargetPrefixPath = [], RelTargetPath = vSource (tV t),
       Fs = ''none'', Flags = MS_REC OR MS_SHARED\<rparr>,
      \<lparr>HostPath = vSource (tV t), TargetPrefixPath = rfs, RelTargetPath = mPath (tM t),
       Fs = ''none'', Flags = bindFlags\<rparr>]
     @ (if readOnlySet cur (vReadOnly (tV t)) then
          [\<lparr>HostPath = [], TargetPrefixPath = rfs, RelTargetPath = mPath (tM t),
            Fs = ''none'', Flags = bindFlags OR MS_REMOUNT OR MS_RDONLY\<rparr>]
        else [])"

text \<open>
  The reconciliation part of \<open>evaluateMounts\<close> (lines 130-183): the final map and the
  final value of the loop variable of the last loop.
\<close>

definition reconcile :: "string \<Rightarrow> Pod \<Rightarrow> (namedVolumeMounts \<times> MountPoint option) result" where
  "reconcile app p =
     (case Images p app of
        None \<Rightarrow> Panic
      | Some imApp \<Rightarrow>
          (case Apps p of
             [] \<Rightarrow> Panic
           | a # as \<Rightarrow>
               bind_result (seedMounts (appMounts a) []) (\<lambda>nv1.
                 case imApp of
                   None \<Rightarrow> Panic
                 | Some mps \<Rightarrow>
                     bind_result (mergeMountPoints mps nv1) (\<lambda>nv2.
                     bind_result (insertVolumes (Volumes p) nv2) (\<lambda>nv3.
                       fillReadOnly mps nv3 None)))))"

text \<open>
  \<open>evaluateMounts\<close>. \<open>visit\<close> is the order in which \<open>range\<close> enumerates the entries of
  the map at line 187; Go leaves it unspecified, so it is an argument.
\<close>

definition evaluateMounts ::
  "(namedVolumeMounts \<Rightarrow> namedVolumeMounts) \<Rightarrow> string \<Rightarrow> string \<Rightarrow> Pod \<Rightarrow> flyMount list result" where
  "evaluateMounts visit rfs app p =
     bind_result (reconcile app p) (\<lambda>(nv, cur).
       Ok (concat (map (\<lambda>(k, t). tupleMounts rfs cur t) (visit nv))))"

section \<open>Setup entry point: \<open>stage1\<close> (stage1 fly, run)\<close>

text \<open>
  What the process does to the outside world is recorded as a trace. Everything the
  function asks of its collaborators is an oracle in \<open>runEnv\<close>:
  \<^item> \<open>uuidArg\<close>: \<open>types.NewUUID(flag.Arg(0))\<close>, \<open>None\<close> when missing or malformed;
  \<^item> \<open>loadPod\<close>: \<open>stage1commontypes.LoadPod\<close>, \<open>None\<close> for an error;
  \<^item> \<open>rootfsOf\<close>: \<open>filepath.Join(common.AppPath(root, name), "rootfs")\<close>;
  \<^item> \<open>lockFD\<close>: \<open>common.GetRktLockFD\<close>; \<open>setCloExecOk\<close>: the first \<open>sys.CloseOnExec\<close>;
  \<^item> \<open>mountStepOk m\<close>: the body of the loop of lines 262-313 for one mount (the
    \<open>os.Stat\<close> calls, the creation of the target and \<open>syscall.Mount\<close>) goes through;
    every failure in that body is a \<open>log.Fatalf\<close>;
  \<^item> \<open>writePpidOk\<close>, \<open>chrootOk\<close>, \<open>chdirOk\<close>, \<open>clearCloExecOk\<close>: the named calls succeed;
  \<^item> \<open>execOutcome\<close>: \<open>syscall.Exec\<close> returns an error, returns nil, or replaces the
    process image and does not return.
\<close>

datatype execResult = ExecError | ExecNil | ExecReplaced

record runEnv =
  uuidArg :: "string option"
  loadPod :: "string \<Rightarrow> Pod option"
  rootfsOf :: "string \<Rightarrow> string \<Rightarrow> string"
  lockFD :: "int option"
  setCloExecOk :: bool
  mountStepOk :: "flyMount \<Rightarrow> bool"
  writePpidOk :: bool
  chrootOk :: bool
  chdirOk :: bool
  clearCloExecOk :: bool
  execOutcome :: execResult

datatype event =
    EvEvaluateMounts string string
  | EvMount flyMount
  | EvWritePpid
  | EvChroot string
  | EvChdir
  | EvExec "string list"

text \<open>
  How the process ends: with an exit status (\<open>log.Fatalf\<close> is status 1, a Go panic is
  status 2, \<open>os.Exit(stage1())\<close> is the returned value), or replaced by the app.
\<close>

datatype ending = Exited nat | Replaced

text \<open>The seven fixed mounts of lines 247-258.\<close>

definition systemMounts :: "string \<Rightarrow> flyMount list" where
  "systemMounts rfs =
     [\<lparr>HostPath = [], TargetPrefixPath = [], RelTargetPath = ''/dev'',
       Fs = ''none'', Flags = MS_REC OR MS_SHARED\<rparr>,
      \<lparr>HostPath = ''/dev'', TargetPrefixPath = rfs, RelTargetPath = ''/dev'',
       Fs = ''none'', Flags = MS_BIND OR MS_REC\<rparr>,
      \<lparr>HostPath = [], TargetPrefixPath = [], RelTargetPath = ''/proc'',
       Fs = ''none'', Flags = MS_REC OR MS_SHARED\<rparr>,
      \<lparr>HostPath = ''/proc'', TargetPrefixPath = rfs, RelTargetPath = ''/proc'',
       Fs = ''none'', Flags = MS_BIND OR MS_REC\<rparr>,
      \<lparr>HostPath = [], TargetPrefixPath = [], RelTargetPath = ''/sys'',
       Fs = ''none'', Flags = MS_REC OR MS_SHARED\<rparr>,
      \<lparr>HostPath = ''/sys'', TargetPrefixPath = rfs, RelTargetPath = ''/sys'',
       Fs = ''none'', Flags = MS_BIND OR MS_REC\<rparr>,
      \<lparr>HostPath = ''tmpfs'', TargetPrefixPath = rfs, RelTargetPath = ''/tmp'',
       Fs = ''tmpfs'', Flags = 0\<rparr>]"

text \<open>Lines 262-313: the mounts are applied in list order; the first failure is fatal.\<close>

fun applyMounts :: "runEnv \<Rightarrow> flyMount list \<Rightarrow> event list \<times> bool" where
  "applyMounts env [] = ([], True)"
| "applyMounts env (m # ms) =
     (if mountStepOk env m then
        (case applyMounts env ms of (tr, ok) \<Rightarrow> (EvMount m # tr, ok))
      else ([EvMount m], False))"

text \<open>Lines 315-338: the ppid file, chroot, chdir, exec.\<close>

definition enterAndExec :: "runEnv \<Rightarrow> string \<Rightarrow> string list \<Rightarrow> event list \<times> ending" where
  "enterAndExec env rfs args =
     (if \<not> writePpidOk env then ([EvWritePpid], Exited 4)
      else if \<not> chrootOk env then ([EvWritePpid, EvChroot rfs], Exited 1)
      else if \<not> chdirOk env then ([EvWritePpid, EvChroot rfs, EvChdir], Exited 1)
      else if args = [] then ([EvWritePpid, EvChroot rfs, EvChdir], Exited 2)
      else if \<not> clearCloExecOk env then ([EvWritePpid, EvChroot rfs, EvChdir], Exited 7)
      else
        ([EvWritePpid, EvChroot rfs, EvChdir, EvExec args],
         (case execOutcome env of
            ExecError \<Rightarrow> Exited 7
          | ExecNil \<Rightarrow> Exited 0
          | ExecReplaced \<Rightarrow> Replaced)))"

text \<open>
  \<open>main\<close> with \<open>stage1\<close> inlined: \<open>os.Exit(stage1())\<close>. Line 225 reads
  \<open>p.Manifest.Apps[0].App.Exec\<close> and panics on a nil \<open>App\<close>.
\<close>

definition stage1 ::
  "(namedVolumeMounts \<Rightarrow> namedVolumeMounts) \<Rightarrow> runEnv \<Rightarrow> event list \<times> ending" where
  "stage1 visit env =
     (case uuidArg env of
        None \<Rightarrow> ([], Exited 1)
      | Some uuid \<Rightarrow>
     (case loadPod env uuid of
        None \<Rightarrow> ([], Exited 1)
      | Some p \<Rightarrow>
     (if length (Apps p) \<noteq> 1 then ([], Exited 1)
      else
        let a = hd (Apps p) in
     (case appApp a of
        None \<Rightarrow> ([], Exited 2)
      | Some args \<Rightarrow>
        let rfs = rootfsOf env (Root p) (appName a) in
     (case lockFD env of
        None \<Rightarrow> ([], Exited 1)
      | Some lfd \<Rightarrow>
     (if \<not> setCloExecOk env then ([], Exited 1)
      else
     (case evaluateMounts visit rfs (appName a) p of
        Panic \<Rightarrow> ([EvEvaluateMounts rfs (appName a)], Exited 2)
      | Exit e \<Rightarrow> ([EvEvaluateMounts rfs (appName a)], Exited 1)
      | Error e \<Rightarrow> ([EvEvaluateMounts rfs (appName a)], Exited 1)
      | Ok argFlyMounts \<Rightarrow>
     (case applyMounts env (systemMounts rfs @ argFlyMounts) of
        (tr, ok) \<Rightarrow>
          if \<not> ok then (EvEvaluateMounts rfs (appName a) # tr, Exited 1)
          else
            (case enterAndExec env rfs args of
               (tr', e) \<Rightarrow> (EvEvaluateMounts rfs (appName a) # tr @ tr', e))))))))))"

section \<open>Pod mount reaper: \<open>main\<close> (stage1 fly, gc)\<close>

text \<open>\<open>strings.Split(s, sep)\<close> for a separator of one character.\<close>

fun splitOn :: "char \<Rightarrow> string \<Rightarrow> string list" where
  "splitOn c [] = [[]]"
| "splitOn c (x # xs) =
     (if x = c then [] # splitOn c xs
      else (case splitOn c xs of [] \<Rightarrow> [[x]] | w # ws \<Rightarrow> (x # w) # ws))"

text \<open>
  \<open>regex.MatchString(line)\<close> for the pattern \<open>.*<podID>.*\<close>. The identifier is the
  canonical text of a UUID (hexadecimal digits and dashes), none of whose characters is
  special in a regular expression, the match is not anchored and a line holds no
  newline: the line matches when the identifier occurs in it.
\<close>

fun containsStr :: "string \<Rightarrow> string \<Rightarrow> bool" where
  "containsStr s [] = (s = [])"
| "containsStr s (c # cs) = (prefix s (c # cs) \<or> containsStr s cs)"

text \<open>
  Lines 103-114. \<open>mountMap\<close> is the set of mount points seen, \<open>mountList\<close> the list in
  order of first appearance. \<open>splitLine[4]\<close> panics on a line of fewer than five fields.
\<close>

fun collectMounts :: "string \<Rightarrow> string list \<Rightarrow> string set \<Rightarrow> string list \<Rightarrow> string list option" where
  "collectMounts podID [] mountMap mountList = Some mountList"
| "collectMounts podID (line # lines) mountMap mountList =
     (if containsStr podID line then
        (let splitLine = splitOn CHR '' '' line in
         if length splitLine \<le> 4 then None
         else
           (let mount = splitLine ! 4 in
            if mount \<in> mountMap then collectMounts podID lines mountMap mountList
            else collectMounts podID lines (insert mount mountMap) (mountList @ [mount])))
      else collectMounts podID lines mountMap mountList)"

datatype gcCall = Remount string "64 word" | Unmount string

text \<open>
  The two system calls are oracles: \<open>remountOk dest\<close> and \<open>unmountOk dest\<close> say whether
  the call on \<open>dest\<close> succeeds. A call that fails has been issued and is in the trace;
  \<open>log.Fatalf\<close> then ends the process.
\<close>

record gcEnv =
  gcUuidArg :: "string option"
  readLines :: "string list option"
  remountOk :: "string \<Rightarrow> bool"
  unmountOk :: "string \<Rightarrow> bool"

abbreviation (input) remountCall :: "string \<Rightarrow> gcCall" where
  "remountCall d \<equiv> Remount d (MS_REC OR MS_PRIVATE)"

fun remountAll :: "gcEnv \<Rightarrow> string list \<Rightarrow> gcCall list \<times> bool" where
  "remountAll env [] = ([], True)"
| "remountAll env (dest # ds) =
     (if remountOk env dest then
        (case remountAll env ds of (tr, ok) \<Rightarrow> (Remount dest (MS_REC OR MS_PRIVATE) # tr, ok))
      else ([Remount dest (MS_REC OR MS_PRIVATE)], False))"

fun unmountAll :: "gcEnv \<Rightarrow> string list \<Rightarrow> gcCall list \<times> bool" where
  "unmountAll env [] = ([], True)"
| "unmountAll env (dest # ds) =
     (if unmountOk env dest then
        (case unmountAll env ds of (tr, ok) \<Rightarrow> (Unmount dest # tr, ok))
      else ([Unmount dest], False))"

text \<open>
  Lines 102-135, the reaping proper, on the lines read. \<open>sort.Sort(sort.StringSlice)\<close>
  is the ascending sort in the byte-wise lexicographic order of Go strings,
  \<open>sort.Reverse\<close> of it the descending one; on a list without duplicates either result
  is unique.
\<close>

definition reap :: "gcEnv \<Rightarrow> string \<Rightarrow> string list \<Rightarrow> gcCall list \<times> ending" where
  "reap env podID lines =
     (case collectMounts podID lines {} [] of
        None \<Rightarrow> ([], Exited 2)
      | Some mountList \<Rightarrow>
          if length mountList = 0 then ([], Exited 0)
          else
            (case remountAll env (sort mountList) of
               (tr, ok) \<Rightarrow>
                 if \<not> ok then (tr, Exited 1)
                 else
                   (case unmountAll env (rev (sort mountList)) of
                      (tr', ok') \<Rightarrow> (tr @ tr', if ok' then Exited 0 else Exited 1))))"

definition gcMain :: "gcEnv \<Rightarrow> gcCall list \<times> ending" where
  "gcMain env =
     (case gcUuidArg env of
        None \<Rightarrow> ([], Exited 1)
      | Some podID \<Rightarrow>
          (case readLines env of
             None \<Rightarrow> ([], Exited 1)
           | Some lines \<Rightarrow> reap env podID lines))"

section \<open>Prefix filter and dependency orderer: \<open>getMountsForPrefix\<close> (stage0)\<close>

text \<open>
  Modelled from the spec: the type of the entries \<open>getMountsForPrefix\<close> works on is
  not among the sources. \<open>MountEntry\<close> is one parsed line of the mount table, with the
  fields section 3 of the specification lists.
\<close>

datatype propagation = Shared | Private | Slave | Unbindable

record MountEntry =
  meId :: int
  meParentID :: int
  meDeviceID :: string
  meRoot :: string
  meMountPoint :: string
  meOptions :: "string list"
  mePropagation :: propagation

text \<open>
  Modelled from the spec: the path tests of \<open>getMountsForPrefix\<close> (section 4.2: a
  match of path segments, not of raw strings). A path is its sequence of non-empty
  segments; \<open>isDescendant d a\<close>: the path \<open>d\<close> lies strictly below \<open>a\<close>, segment
  by segment (so \<open>/foobar\<close> is not below \<open>/foo\<close>); \<open>isUnder pre mp\<close>: the mount point
  \<open>mp\<close> is the prefix \<open>pre\<close> or lies below it.
\<close>

definition segments :: "string \<Rightarrow> string list" where
  "segments p = filter (\<lambda>s. s \<noteq> []) (splitOn CHR ''/'' p)"

definition isDescendant :: "string \<Rightarrow> string \<Rightarrow> bool" where
  "isDescendant d a \<longleftrightarrow> strict_prefix (segments a) (segments d)"

definition isUnder :: "string \<Rightarrow> string \<Rightarrow> bool" where
  "isUnder pre mp \<longleftrightarrow> mp = pre \<or> isDescendant mp pre"

definition hasDescendantIn :: "MountEntry \<Rightarrow> MountEntry list \<Rightarrow> bool" where
  "hasDescendantIn e xs = list_ex (\<lambda>d. isDescendant (meMountPoint d) (meMountPoint e)) xs"

text \<open>
  Modelled from the spec: the ordering step of \<open>getMountsForPrefix\<close> (section 4.2:
  every entry mounted below an entry comes before it). \<open>extractLeaf pre xs\<close> is the
  first entry of \<open>xs\<close> that has no descendant among the other entries of \<open>pre @ xs\<close>,
  with those other entries in their order; \<open>leavesFirst\<close> takes such an entry out
  again and again until none is left.
\<close>

fun extractLeaf :: "MountEntry list \<Rightarrow> MountEntry list \<Rightarrow> (MountEntry \<times> MountEntry list) option" where
  "extractLeaf pre [] = None"
| "extractLeaf pre (x # xs) =
     (if hasDescendantIn x (pre @ xs) then extractLeaf (pre @ [x]) xs
      else Some (x, pre @ xs))"

lemma extractLeaf_length:
  "extractLeaf pre xs = Some (x, rest) \<Longrightarrow> Suc (length rest) = length pre + length xs"
proof (induction xs arbitrary: pre)
  case Nil
  then show ?case by simp
next
  case (Cons y ys)
  show ?case
  proof (cases "hasDescendantIn y (pre @ ys)")
    case True
    with Cons.prems have "extractLeaf (pre @ [y]) ys = Some (x, rest)" by simp
    from Cons.IH [OF this] show ?thesis by simp
  next
    case False
    with Cons.prems show ?thesis by auto
  qed
qed

function leavesFirst :: "MountEntry list \<Rightarrow> MountEntry list" where
  "leavesFirst xs =
     (case extractLeaf [] xs of
        None \<Rightarrow> xs
      | Some (x, rest) \<Rightarrow> x # leavesFirst rest)"
  by pat_completeness auto
termination
  by (relation "measure length") (auto dest: extractLeaf_length)

declare leavesFirst.simps [simp del]

text \<open>
  Modelled from the spec: the deterministic order among entries that are not nested
  (section 4.2 asks for one and leaves it open). Entries are tried by descending
  parent id, then descending mount id.
\<close>

definition latestFirst :: "MountEntry list \<Rightarrow> MountEntry list" where
  "latestFirst xs = rev (sort_key (\<lambda>e. (meParentID e, meId e)) xs)"

text \<open>
  Modelled from the spec: \<open>getMountsForPrefix\<close> is not among the sources, only its test
  \<open>TestMountOrdering\<close> is. Following section 4.2 of the specification, the entries
  whose mount point is the prefix or lies below it are selected, and returned so that
  an entry comes after every selected entry mounted below it. The specification leaves
  the order of entries that are not nested in one another open and asks for a
  deterministic one: here the entry with the greatest parent id, then the greatest
  mount id, goes first among those with nothing left below them, which is the order
  \<open>TestMountOrdering\<close> expects. The table is taken as parsed.
\<close>

definition getMountsForPrefix :: "string \<Rightarrow> MountEntry list \<Rightarrow> MountEntry list" where
  "getMountsForPrefix pre entries =
     leavesFirst (latestFirst (filter (\<lambda>e. isUnder pre (meMountPoint e)) entries))"

text \<open>The table of \<open>TestMountOrdering\<close> (the variable \<open>mountinfo\<close>), line by line.\<close>

definition mountinfo :: "MountEntry list" where
  "mountinfo =
     [\<lparr>meId = 71, meParentID = 21, meDeviceID = ''0:39'', meRoot = ''/'',
       meMountPoint = ''/var/lib/rkt'',
       meOptions = [''rw'', ''relatime''], mePropagation = Shared\<rparr>,
      \<lparr>meId = 116, meParentID = 71, meDeviceID = ''0:45'', meRoot = ''/'',
       meMountPoint = ''/my/mount/prefix/rootfs'',
       meOptions = [''rw'', ''relatime''], mePropagation = Shared\<rparr>,
      \<lparr>meId = 121, meParentID = 116, meDeviceID = ''0:46'', meRoot = ''/'',
       meMountPoint = ''/my/mount/prefix/rootfs/opt/stage2/busybox/rootfs'',
       meOptions = [''rw'', ''relatime''], mePropagation = Shared\<rparr>,
      \<lparr>meId = 146, meParentID = 145, meDeviceID = ''0:27'', meRoot = ''/'',
       meMountPoint = ''/my/mount/prefix/rootfs/opt/stage2/busybox/rootfs/sys/fs/cgroup/systemd'',
       meOptions = [''rw'', ''nosuid'', ''nodev'', ''noexec'', ''relatime''], mePropagation = Shared\<rparr>,
      \<lparr>meId = 145, meParentID = 144, meDeviceID = ''0:26'', meRoot = ''/'',
       meMountPoint = ''/my/mount/prefix/rootfs/opt/stage2/busybox/rootfs/sys/fs/cgroup'',
       meOptions = [''rw'', ''nosuid'', ''nodev'', ''noexec''], mePropagation = Shared\<rparr>,
      \<lparr>meId = 144, meParentID = 121, meDeviceID = ''0:17'', meRoot = ''/'',
       meMountPoint = ''/my/mount/prefix/rootfs/opt/stage2/busybox/rootfs/sys'',
       meOptions = [''rw'', ''relatime''], mePropagation = Shared\<rparr>,
      \<lparr>meId = 180, meParentID = 121, meDeviceID = ''0:19'', meRoot = ''/nixos'',
       meMountPoint = ''/my/mount/prefix/rootfs/opt/stage2/busybox/rootfs/rootfs'',
       meOptions = [''ro'', ''relatime''], mePropagation = Shared\<rparr>,
      \<lparr>meId = 184, meParentID = 183, meDeviceID = ''0:27'', meRoot = ''/'',
       meMountPoint = ''/my/mount/prefix/rootfs/opt/stage2/busybox/rootfs/rootfs/sys/fs/cgroup/systemd'',
       meOptions = [''rw'', ''nosuid'', ''nodev'', ''noexec'', ''relatime''], mePropagation = Shared\<rparr>,
      \<lparr>meId = 183, meParentID = 182, meDeviceID = ''0:26'', meRoot = ''/'',
       meMountPoint = ''/my/mount/prefix/rootfs/opt/stage2/busybox/rootfs/rootfs/sys/fs/cgroup'',
       meOptions = [''rw'', ''nosuid'', ''nodev'', ''noexec''], mePropagation = Shared\<rparr>,
      \<lparr>meId = 182, meParentID = 180, meDeviceID = ''0:17'', meRoot = ''/'',
       meMountPoint = ''/my/mount/prefix/rootfs/opt/stage2/busybox/rootfs/rootfs/sys'',
       meOptions = [''rw'', ''relatime''], mePropagation = Shared\<rparr>,
      \<lparr>meId = 209, meParentID = 206, meDeviceID = ''0:45'', meRoot = ''/'',
       meMountPoint = ''/my/mount/prefix/rootfs/opt/stage2/busybox/rootfs/rootfs/my/mount/prefix/rootfs'',
       meOptions = [''rw'', ''relatime''], mePropagation = Shared\<rparr>,
      \<lparr>meId = 219, meParentID = 218, meDeviceID = ''0:27'', meRoot = ''/'',
       meMountPoint = ''/my/mount/prefix/rootfs/opt/stage2/busybox/rootfs/rootfs/my/mount/prefix/rootfs/opt/stage2/busybox/rootfs/sys/fs/cgroup/systemd'',
       meOptions = [''rw'', ''nosuid'', ''nodev'', ''noexec'', ''relatime''], mePropagation = Shared\<rparr>,
      \<lparr>meId = 218, meParentID = 217, meDeviceID = ''0:26'', meRoot = ''/'',
       meMountPoint = ''/my/mount/prefix/rootfs/opt/stage2/busybox/rootfs/rootfs/my/mount/prefix/rootfs/opt/stage2/busybox/rootfs/sys/fs/cgroup'',
       meOptions = [''rw'', ''nosuid'', ''nodev'', ''noexec''], mePropagation = Shared\<rparr>,
      \<lparr>meId = 217, meParentID = 210, meDeviceID = ''0:17'', meRoot = ''/'',
       meMountPoint = ''/my/mount/prefix/rootfs/opt/stage2/busybox/rootfs/rootfs/my/mount/prefix/rootfs/opt/stage2/busybox/rootfs/sys'',
       meOptions = [''rw'', ''relatime''], mePropagation = Shared\<rparr>,
      \<lparr>meId = 210, meParentID = 209, meDeviceID = ''0:46'', meRoot = ''/'',
       meMountPoint = ''/my/mount/prefix/rootfs/opt/stage2/busybox/rootfs/rootfs/my/mount/prefix/rootfs/opt/stage2/busybox/rootfs'',
       meOptions = [''rw'', ''relatime''], mePropagation = Shared\<rparr>]"

section \<open>The read-only flag as the specification resolves it\<close>

text \<open>
  This definition follows the words of the specification, not the code: "Read-only
  status, if declared at the mount-point level and unset at the volume level,
  propagates down to the volume" (section 3), "if the record's read-only flag is unset,
  default it to the image mount point's declared read-only value" (section 4.3, step
  4). The flag of a volume is its own when set and otherwise the one its image mount
  point declares. It is what the outcome of \<open>evaluateMounts\<close> is compared with.
\<close>

definition specResolvedReadOnly :: "Volume \<Rightarrow> MountPoint list \<Rightarrow> bool" where
  "specResolvedReadOnly v mps =
     (case vReadOnly v of
        Own b \<Rightarrow> b
      | _ \<Rightarrow> (case find (\<lambda>mp. mpName mp = vName v) mps of
                None \<Rightarrow> False
              | Some mp \<Rightarrow> mpReadOnly mp))"

section \<open>Invariant of the map and concrete inputs\<close>

text \<open>Every tuple of \<open>namedVolumeMounts\<close> is filed under the volume name of its mount.\<close>

definition keyed :: "namedVolumeMounts \<Rightarrow> bool" where
  "keyed nv \<longleftrightarrow> (\<forall>k t. map_of nv k = Some t \<longrightarrow> mVolume (tM t) = k)"

text \<open>Pods with one app called \<open>app\<close>, used as concrete inputs below.\<close>

definition imagesOf :: "string \<Rightarrow> MountPoint list \<Rightarrow> string \<Rightarrow> MountPoint list option option" where
  "imagesOf app mps n = (if n = app then Some (Some mps) else None)"

definition onePod :: "Mount list \<Rightarrow> Volume list \<Rightarrow> MountPoint list \<Rightarrow> Pod" where
  "onePod ms vs mps =
     \<lparr>Root = ''.'',
      Apps = [\<lparr>appName = ''app'', appApp = Some [''/bin/sh''], appMounts = ms\<rparr>],
      Volumes = vs,
      Images = imagesOf ''app'' mps\<rparr>"

definition roPod :: Pod where
  "roPod = onePod []
     [\<lparr>vName = ''a'', vSource = ''/srv/a'', vReadOnly = NilPtr\<rparr>,
      \<lparr>vName = ''b'', vSource = ''/srv/b'', vReadOnly = NilPtr\<rparr>]
     [\<lparr>mpName = ''a'', mpPath = ''/a'', mpReadOnly = True\<rparr>,
      \<lparr>mpName = ''b'', mpPath = ''/b'', mpReadOnly = False\<rparr>]"

definition rwPod :: Pod where
  "rwPod = onePod []
     [\<lparr>vName = ''a'', vSource = ''/srv/a'', vReadOnly = NilPtr\<rparr>,
      \<lparr>vName = ''b'', vSource = ''/srv/b'', vReadOnly = NilPtr\<rparr>]
     [\<lparr>mpName = ''a'', mpPath = ''/a'', mpReadOnly = False\<rparr>,
      \<lparr>mpName = ''b'', mpPath = ''/b'', mpReadOnly = True\<rparr>]"

definition singleRoPod :: Pod where
  "singleRoPod = onePod []
     [\<lparr>vName = ''data'', vSource = ''/srv/data'', vReadOnly = NilPtr\<rparr>]
     [\<lparr>mpName = ''data'', mpPath = ''/data'', mpReadOnly = True\<rparr>]"

definition dupPod :: Pod where
  "dupPod = onePod
     [\<lparr>mVolume = ''data'', mPath = ''/data''\<rparr>, \<lparr>mVolume = ''data'', mPath = ''/other''\<rparr>]
     [\<lparr>vName = ''data'', vSource = ''/srv/data'', vReadOnly = NilPtr\<rparr>]
     []"

definition twoVolPod :: Pod where
  "twoVolPod = onePod
     [\<lparr>mVolume = ''a'', mPath = ''/a''\<rparr>, \<lparr>mVolume = ''b'', mPath = ''/b''\<rparr>]
     [\<lparr>vName = ''a'', vSource = ''/srv/a'', vReadOnly = Own False\<rparr>,
      \<lparr>vName = ''b'', vSource = ''/srv/b'', vReadOnly = Own False\<rparr>]
     []"

definition conflictPod :: Pod where
  "conflictPod = onePod
     [\<lparr>mVolume = ''data'', mPath = ''/data''\<rparr>]
     [\<lparr>vName = ''data'', vSource = ''/srv/data'', vReadOnly = NilPtr\<rparr>]
     [\<lparr>mpName = ''data'', mpPath = ''/elsewhere'', mpReadOnly = False\<rparr>]"

definition conflictDupPod :: Pod where
  "conflictDupPod = onePod
     [\<lparr>mVolume = ''data'', mPath = ''/data''\<rparr>, \<lparr>mVolume = ''data'', mPath = ''/data''\<rparr>]
     [\<lparr>vName = ''data'', vSource = ''/srv/data'', vReadOnly = NilPtr\<rparr>]
     [\<lparr>mpName = ''data'', mpPath = ''/elsewhere'', mpReadOnly = False\<rparr>]"

definition spareVolPod :: Pod where
  "spareVolPod = onePod
     [\<lparr>mVolume = ''data'', mPath = ''/data''\<rparr>]
     [\<lparr>vName = ''data'', vSource = ''/srv/data'', vReadOnly = NilPtr\<rparr>,
      \<lparr>vName = ''spare'', vSource = ''/srv/spare'', vReadOnly = NilPtr\<rparr>]
     []"

definition spareVolDupPod :: Pod where
  "spareVolDupPod = onePod
     [\<lparr>mVolume = ''data'', mPath = ''/data''\<rparr>, \<lparr>mVolume = ''data'', mPath = ''/data''\<rparr>]
     [\<lparr>vName = ''data'', vSource = ''/srv/data'', vReadOnly = NilPtr\<rparr>,
      \<lparr>vName = ''spare'', vSource = ''/srv/spare'', vReadOnly = NilPtr\<rparr>]
     []"

definition baseEnv :: runEnv where
  "baseEnv =
     \<lparr>uuidArg = Some ''8d2c6c2f-9a1b-4c55-8f3e-0a1b2c3d4e5f'',
      loadPod = (\<lambda>u. Some singleRoPod),
      rootfsOf = (\<lambda>root name. root @ ''/stage1/rootfs/opt/stage2/'' @ name @ ''/rootfs''),
      lockFD = Some 3,
      setCloExecOk = True,
      mountStepOk = (\<lambda>m. True),
      writePpidOk = True,
      chrootOk = True,
      chdirOk = True,
      clearCloExecOk = True,
      execOutcome = ExecReplaced\<rparr>"

definition twoAppsPod :: Pod where
  "twoAppsPod =
     \<lparr>Root = ''.'',
      Apps = [\<lparr>appName = ''app'', appApp = Some [''/bin/sh''],
               appMounts = [\<lparr>mVolume = ''data'', mPath = ''/data''\<rparr>]\<rparr>,
              \<lparr>appName = ''sidecar'', appApp = Some [''/bin/true''], appMounts = []\<rparr>],
      Volumes = [\<lparr>vName = ''data'', vSource = ''/srv/data'', vReadOnly = NilPtr\<rparr>],
      Images = imagesOf ''app'' []\<rparr>"

definition noUuidEnv :: runEnv where
  "noUuidEnv = baseEnv\<lparr>uuidArg := None\<rparr>"

definition noPodEnv :: runEnv where
  "noPodEnv = baseEnv\<lparr>loadPod := (\<lambda>u. None)\<rparr>"

definition ppidFailEnv :: runEnv where
  "ppidFailEnv = baseEnv\<lparr>writePpidOk := False\<rparr>"

definition execFailEnv :: runEnv where
  "execFailEnv = baseEnv\<lparr>execOutcome := ExecError\<rparr>"

definition twoAppsEnv :: runEnv where
  "twoAppsEnv = baseEnv\<lparr>loadPod := (\<lambda>u. Some twoAppsPod)\<rparr>"

definition twoVolEnv :: runEnv where
  "twoVolEnv = baseEnv\<lparr>loadPod := (\<lambda>u. Some twoVolPod)\<rparr>"

text \<open>
  A mount table for the reaper: the root mount, three mounts of the pod at \<open>/a\<close>,
  \<open>/a/b/c\<close> and \<open>/a/b\<close>, and a second mount at \<open>/a/b\<close>.
\<close>

definition podA :: string where
  "podA = ''8d2c6c2f-9a1b-4c55-8f3e-0a1b2c3d4e5f''"

definition gcLines :: "string list" where
  "gcLines =
     [''22 1 8:1 / / rw,relatime shared:1 - ext4 /dev/sda1 rw'',
      ''101 22 0:50 / /a rw,relatime shared:40 - tmpfs /pods/8d2c6c2f-9a1b-4c55-8f3e-0a1b2c3d4e5f rw'',
      ''103 102 0:52 / /a/b/c rw,relatime shared:42 - tmpfs /pods/8d2c6c2f-9a1b-4c55-8f3e-0a1b2c3d4e5f/c rw'',
      ''102 101 0:51 / /a/b rw,relatime shared:41 - tmpfs /pods/8d2c6c2f-9a1b-4c55-8f3e-0a1b2c3d4e5f/b rw'',
      ''104 101 0:51 / /a/b rw,relatime shared:41 - tmpfs /pods/8d2c6c2f-9a1b-4c55-8f3e-0a1b2c3d4e5f/b rw'']"

definition allOk :: gcEnv where
  "allOk = \<lparr>gcUuidArg = Some podA, readLines = Some gcLines,
            remountOk = (\<lambda>d. True), unmountOk = (\<lambda>d. True)\<rparr>"

section \<open>Properties of the plan builder's loops\<close>

lemma keyed_update:
  "keyed nv \<Longrightarrow> mVolume (tM t) = k \<Longrightarrow> keyed (AList.update k t nv)"
  by (simp add: keyed_def update_conv')

lemma seedMounts_shape:
  "(\<exists>nv'. seedMounts ms nv = Ok nv') \<or> (\<exists>n. seedMounts ms nv = Exit (DuplicatedMount n))"
  by (induction ms arbitrary: nv) (auto split: option.splits)

lemma seedMounts_Ok:
  "seedMounts ms nv = Ok nv' \<Longrightarrow>
     distinct (map mVolume ms) \<and>
     (\<forall>m\<in>set ms. map_of nv (mVolume m) = None \<and>
                  map_of nv' (mVolume m) = Some \<lparr>tV = zeroVolume, tM = m\<rparr>) \<and>
     (\<forall>k. k \<notin> mVolume ` set ms \<longrightarrow> map_of nv' k = map_of nv k)"
proof (induction ms arbitrary: nv)
  case Nil
  then show ?case by simp
next
  case (Cons m ms)
  let ?nv = "AList.update (mVolume m) \<lparr>tV = zeroVolume, tM = m\<rparr> nv"
  from Cons.prems have none: "map_of nv (mVolume m) = None"
    and rest: "seedMounts ms ?nv = Ok nv'"
    by (auto split: option.splits)
  note ih = Cons.IH [OF rest]
  have fresh: "mVolume m \<notin> mVolume ` set ms"
  proof
    assume "mVolume m \<in> mVolume ` set ms"
    then obtain m' where "m' \<in> set ms" "mVolume m' = mVolume m" by auto
    with ih have "map_of ?nv (mVolume m) = None" by metis
    then show False by (simp add: update_conv')
  qed
  show ?case
  proof (intro conjI ballI allI impI)
    show "distinct (map mVolume (m # ms))" using ih fresh by simp
  next
    fix x assume x: "x \<in> set (m # ms)"
    show "map_of nv (mVolume x) = None"
    proof (cases "x = m")
      case True with none show ?thesis by simp
    next
      case False
      with x have "x \<in> set ms" by simp
      with ih have "map_of ?nv (mVolume x) = None" by blast
      then show ?thesis by (simp add: update_conv' split: if_splits)
    qed
    show "map_of nv' (mVolume x) = Some \<lparr>tV = zeroVolume, tM = x\<rparr>"
    proof (cases "x \<in> set ms")
      case True with ih show ?thesis by blast
    next
      case False
      with x have xm: "x = m" by simp
      with fresh ih have "map_of nv' (mVolume m) = map_of ?nv (mVolume m)" by blast
      with xm show ?thesis by (simp add: update_conv')
    qed
  next
    fix k assume "k \<notin> mVolume ` set (m # ms)"
    then have "k \<noteq> mVolume m" "k \<notin> mVolume ` set ms" by auto
    with ih have "map_of nv' k = map_of ?nv k" by blast
    with \<open>k \<noteq> mVolume m\<close> show "map_of nv' k = map_of nv k" by (simp add: update_conv')
  qed
qed

lemma seedMounts_keyed:
  "seedMounts ms nv = Ok nv' \<Longrightarrow> keyed nv \<Longrightarrow> keyed nv'"
proof (induction ms arbitrary: nv)
  case Nil
  then show ?case by simp
next
  case (Cons m ms)
  then show ?case
    by (auto split: option.splits intro!: Cons.IH keyed_update)
qed

lemma seedMounts_distinct:
  "distinct (map mVolume ms) \<Longrightarrow> \<forall>m\<in>set ms. map_of nv (mVolume m) = None \<Longrightarrow>
   \<exists>nv'. seedMounts ms nv = Ok nv'"
proof (induction ms arbitrary: nv)
  case Nil
  then show ?case by simp
next
  case (Cons m ms)
  let ?nv = "AList.update (mVolume m) \<lparr>tV = zeroVolume, tM = m\<rparr> nv"
  have "\<forall>x\<in>set ms. map_of ?nv (mVolume x) = None"
  proof
    fix x assume x: "x \<in> set ms"
    from Cons.prems have "mVolume m \<notin> mVolume ` set ms" by simp
    with x have "mVolume x \<noteq> mVolume m" by (metis imageI)
    moreover from x Cons.prems have "map_of nv (mVolume x) = None" by simp
    ultimately show "map_of ?nv (mVolume x) = None" by (simp add: update_conv')
  qed
  moreover have "distinct (map mVolume ms)" using Cons.prems by simp
  ultimately have "\<exists>nv'. seedMounts ms ?nv = Ok nv'" by (rule Cons.IH [rotated])
  then show ?case using Cons.prems by simp
qed

lemma mergeMountPoints_shape:
  "(\<exists>nv'. mergeMountPoints mps nv = Ok nv') \<or> (\<exists>n. mergeMountPoints mps nv = Error (ConflictingPath n))"
  by (induction mps arbitrary: nv) (auto split: option.splits)

lemma mergeMountPoints_Ok:
  "mergeMountPoints mps nv = Ok nv' \<Longrightarrow>
     (\<forall>k t. map_of nv k = Some t \<longrightarrow> map_of nv' k = Some t) \<and>
     (\<forall>mp\<in>set mps. \<exists>t. map_of nv' (mpName mp) = Some t \<and> mPath (tM t) = mpPath mp) \<and>
     dom (map_of nv') = dom (map_of nv) \<union> mpName ` set mps"
proof (induction mps arbitrary: nv)
  case Nil
  then show ?case by simp
next
  case (Cons mp mps)
  show ?case
  proof (cases "map_of nv (mpName mp)")
    case None
    let ?nv = "AList.update (mpName mp)
               \<lparr>tV = zeroVolume, tM = \<lparr>mVolume = mpName mp, mPath = mpPath mp\<rparr>\<rparr> nv"
    from None Cons.prems have "mergeMountPoints mps ?nv = Ok nv'" by simp
    note ih = Cons.IH [OF this]
    have a: "\<forall>k t. map_of nv k = Some t \<longrightarrow> map_of nv' k = Some t"
    proof (intro allI impI)
      fix k t assume kt: "map_of nv k = Some t"
      with None have "k \<noteq> mpName mp" by auto
      then have "map_of ?nv k = Some t" using kt by (simp add: update_conv')
      with ih show "map_of nv' k = Some t" by blast
    qed
    have b: "\<exists>t. map_of nv' (mpName mp) = Some t \<and> mPath (tM t) = mpPath mp"
      using ih by (auto simp: update_conv')
    have c: "dom (map_of nv') = dom (map_of nv) \<union> mpName ` set (mp # mps)"
      using ih by (auto simp: update_conv')
    from a b c ih show ?thesis by auto
  next
    case (Some t)
    with Cons.prems have eq: "mPath (tM t) = mpPath mp" and "mergeMountPoints mps nv = Ok nv'"
      by (auto split: if_splits)
    note ih = Cons.IH [OF this(2)]
    from ih Some eq show ?thesis by auto
  qed
qed

lemma mergeMountPoints_keyed:
  "mergeMountPoints mps nv = Ok nv' \<Longrightarrow> keyed nv \<Longrightarrow> keyed nv'"
proof (induction mps arbitrary: nv)
  case Nil
  then show ?case by simp
next
  case (Cons mp mps)
  then show ?case
    by (auto split: option.splits if_splits intro!: Cons.IH keyed_update)
qed

lemma insertVolumes_shape:
  "keyed nv \<Longrightarrow>
   (\<exists>nv'. insertVolumes vs nv = Ok nv') \<or> (\<exists>n. insertVolumes vs nv = Error (MissingMount n))"
proof (induction vs arbitrary: nv)
  case Nil
  then show ?case by simp
next
  case (Cons v vs)
  show ?case
  proof (cases "map_of nv (vName v)")
    case None
    then show ?thesis by simp
  next
    case (Some t)
    with Cons.prems have k: "mVolume (tM t) = vName v" by (simp add: keyed_def)
    have "keyed (AList.update (vName v) \<lparr>tV = v, tM = tM t\<rparr> nv)"
      using Cons.prems k by (intro keyed_update) simp_all
    from Cons.IH [OF this] Some k show ?thesis by simp
  qed
qed

lemma insertVolumes_Ok:
  "insertVolumes vs nv = Ok nv' \<Longrightarrow> \<forall>v\<in>set vs. vName v \<in> dom (map_of nv)"
proof (induction vs arbitrary: nv)
  case Nil
  then show ?case by simp
next
  case (Cons v vs)
  from Cons.prems obtain t where t: "map_of nv (vName v) = Some t"
    and rest: "insertVolumes vs (AList.update (vName v) \<lparr>tV = v, tM = tM t\<rparr> nv) = Ok nv'"
    by (auto split: option.splits if_splits)
  from Cons.IH [OF rest] t show ?case by (auto simp: update_conv' split: if_splits)
qed

lemmas pod_defs = onePod_def imagesOf_def
lemmas eval_defs = evaluateMounts_def reconcile_def zeroVolume_def tupleMounts_def bindFlags_def or.assoc

lemma keyed_Nil: "keyed []"
  by (simp add: keyed_def)

lemma evaluateMounts_unfold:
  assumes "Images p app = Some (Some mps)" "Apps p = a # as"
  shows "evaluateMounts visit rfs app p =
     bind_result
       (bind_result (seedMounts (appMounts a) []) (\<lambda>nv1.
        bind_result (mergeMountPoints mps nv1) (\<lambda>nv2.
        bind_result (insertVolumes (Volumes p) nv2) (\<lambda>nv3.
          fillReadOnly mps nv3 None))))
       (\<lambda>(nv, cur). Ok (concat (map (\<lambda>(k, t). tupleMounts rfs cur t) (visit nv))))"
  using assms by (simp add: evaluateMounts_def reconcile_def)

lemma tupleMounts_explicit:
  "tupleMounts rfs cur t =
     [\<lparr>HostPath = [], TargetPrefixPath = [], RelTargetPath = vSource (tV t),
       Fs = ''none'', Flags = MS_REC OR MS_SHARED\<rparr>,
      \<lparr>HostPath = vSource (tV t), TargetPrefixPath = rfs, RelTargetPath = mPath (tM t),
       Fs = ''none'', Flags = MS_BIND OR MS_REC\<rparr>]
     @ (if readOnlySet cur (vReadOnly (tV t)) then
          [\<lparr>HostPath = [], TargetPrefixPath = rfs, RelTargetPath = mPath (tM t),
            Fs = ''none'', Flags = MS_BIND OR MS_REC OR MS_REMOUNT OR MS_RDONLY\<rparr>]
        else [])"
  by (cases "readOnlySet cur (vReadOnly (tV t))")
     (simp_all add: tupleMounts_def bindFlags_def or.assoc)

lemma insertVolumes_tM:
  "insertVolumes vs nv = Ok nv' \<Longrightarrow> map_of nv k = Some t \<Longrightarrow>
   \<exists>t'. map_of nv' k = Some t' \<and> tM t' = tM t"
proof (induction vs arbitrary: nv t)
  case Nil
  then show ?case by simp
next
  case (Cons v vs)
  from Cons.prems(1) obtain tv where tv: "map_of nv (vName v) = Some tv"
    and rest: "insertVolumes vs (AList.update (vName v) \<lparr>tV = v, tM = tM tv\<rparr> nv) = Ok nv'"
    by (auto split: option.splits if_splits)
  let ?nv = "AList.update (vName v) \<lparr>tV = v, tM = tM tv\<rparr> nv"
  have "\<exists>t1. map_of ?nv k = Some t1 \<and> tM t1 = tM t"
    using tv Cons.prems(2) by (auto simp: update_conv')
  then obtain t1 where t1: "map_of ?nv k = Some t1" "tM t1 = tM t" by blast
  from Cons.IH [OF rest t1(1)] t1(2) show ?case by simp
qed

lemma fillReadOnly_tM:
  "fillReadOnly mps nv cur = Ok (nv', cur') \<Longrightarrow> map_of nv k = Some t \<Longrightarrow>
   \<exists>t'. map_of nv' k = Some t' \<and> tM t' = tM t"
proof (induction mps arbitrary: nv cur t)
  case Nil
  then show ?case by simp
next
  case (Cons mp mps)
  from Cons.prems(1) obtain tv where tv: "map_of nv (mpName mp) = Some tv"
    by (auto split: option.splits)
  show ?case
  proof (cases "vReadOnly (tV tv) = NilPtr")
    case True
    let ?nv = "AList.update (mpName mp) \<lparr>tV = (tV tv)\<lparr>vReadOnly := MpLoopVar\<rparr>, tM = tM tv\<rparr> nv"
    from Cons.prems(1) tv True have rest: "fillReadOnly mps ?nv (Some mp) = Ok (nv', cur')"
      by (auto split: if_splits)
    have "\<exists>t1. map_of ?nv k = Some t1 \<and> tM t1 = tM t"
      using tv Cons.prems(2) by (auto simp: update_conv')
    then obtain t1 where t1: "map_of ?nv k = Some t1" "tM t1 = tM t" by blast
    from Cons.IH [OF rest t1(1)] t1(2) show ?thesis by simp
  next
    case False
    from Cons.prems(1) tv False have rest: "fillReadOnly mps nv (Some mp) = Ok (nv', cur')"
      by (auto split: if_splits)
    from Cons.IH [OF rest Cons.prems(2)] show ?thesis .
  qed
qed

lemma reconcile_OkD:
  assumes "reconcile app p = Ok (nv, cur)" and "Apps p = a # as"
  shows "\<exists>mps nv1 nv2 nv3.
           seedMounts (appMounts a) [] = Ok nv1 \<and> mergeMountPoints mps nv1 = Ok nv2 \<and>
           insertVolumes (Volumes p) nv2 = Ok nv3 \<and> fillReadOnly mps nv3 None = Ok (nv, cur)"
proof -
  from assms obtain imApp where im: "Images p app = Some imApp"
    by (auto simp: reconcile_def split: option.splits)
  with assms have r: "bind_result (seedMounts (appMounts a) []) (\<lambda>nv1.
                 case imApp of
                   None \<Rightarrow> Panic
                 | Some mps \<Rightarrow>
                     bind_result (mergeMountPoints mps nv1) (\<lambda>nv2.
                     bind_result (insertVolumes (Volumes p) nv2) (\<lambda>nv3.
                       fillReadOnly mps nv3 None))) = Ok (nv, cur)"
    by (simp add: reconcile_def)
  then obtain nv1 where nv1: "seedMounts (appMounts a) [] = Ok nv1"
    by (cases "seedMounts (appMounts a) []") simp_all
  with r obtain mps where mps: "imApp = Some mps"
    by (cases imApp) simp_all
  with r nv1 obtain nv2 where nv2: "mergeMountPoints mps nv1 = Ok nv2"
    by (cases "mergeMountPoints mps nv1") simp_all
  with r nv1 mps obtain nv3 where nv3: "insertVolumes (Volumes p) nv2 = Ok nv3"
    by (cases "insertVolumes (Volumes p) nv2") simp_all
  with r nv1 mps nv2 have "fillReadOnly mps nv3 None = Ok (nv, cur)" by simp
  with nv1 nv2 nv3 show ?thesis by blast
qed

lemma reconcile_keeps_mounts:
  assumes "reconcile app p = Ok (nv, cur)" and "Apps p = a # as" and "m \<in> set (appMounts a)"
  shows "\<exists>t. (mVolume m, t) \<in> set nv \<and> tM t = m"
proof -
  from reconcile_OkD [OF assms(1,2)] obtain mps nv1 nv2 nv3 where
    s: "seedMounts (appMounts a) [] = Ok nv1" and g: "mergeMountPoints mps nv1 = Ok nv2"
    and i: "insertVolumes (Volumes p) nv2 = Ok nv3" and f: "fillReadOnly mps nv3 None = Ok (nv, cur)"
    by blast
  from seedMounts_Ok [OF s] assms(3)
  have "map_of nv1 (mVolume m) = Some \<lparr>tV = zeroVolume, tM = m\<rparr>" by blast
  with mergeMountPoints_Ok [OF g]
  have "map_of nv2 (mVolume m) = Some \<lparr>tV = zeroVolume, tM = m\<rparr>" by blast
  from insertVolumes_tM [OF i this]
  obtain t3 where t3: "map_of nv3 (mVolume m) = Some t3" "tM t3 = m" by auto
  from fillReadOnly_tM [OF f t3(1)] t3(2)
  obtain t4 where "map_of nv (mVolume m) = Some t4" "tM t4 = m" by auto
  then show ?thesis by (auto dest: map_of_SomeD)
qed

lemma evaluateMounts_binds_mount:
  assumes "evaluateMounts visit rfs app p = Ok ops" and "Apps p = a # as"
    and "m \<in> set (appMounts a)" and "\<And>nv. mset (visit nv) = mset nv"
  shows "\<exists>src. \<lparr>HostPath = src, TargetPrefixPath = rfs, RelTargetPath = mPath m,
                 Fs = ''none'', Flags = MS_BIND OR MS_REC\<rparr> \<in> set ops"
proof -
  from assms(1) obtain nv cur where r: "reconcile app p = Ok (nv, cur)"
    and ops: "ops = concat (map (\<lambda>(k, t). tupleMounts rfs cur t) (visit nv))"
    by (cases "reconcile app p") (auto simp: evaluateMounts_def)
  from reconcile_keeps_mounts [OF r assms(2,3)]
  obtain t where t: "(mVolume m, t) \<in> set nv" "tM t = m" by blast
  have "set (visit nv) = set nv" using assms(4) [of nv] by (rule mset_eq_setD)
  with t have "(mVolume m, t) \<in> set (visit nv)" by simp
  then have "set (tupleMounts rfs cur t) \<subseteq> set ops"
    unfolding ops by force
  moreover have "\<lparr>HostPath = vSource (tV t), TargetPrefixPath = rfs, RelTargetPath = mPath m,
                 Fs = ''none'', Flags = MS_BIND OR MS_REC\<rparr> \<in> set (tupleMounts rfs cur t)"
    using t(2) by (simp add: tupleMounts_explicit)
  ultimately show ?thesis by blast
qed

lemma evaluateMounts_duplicate:
  assumes "Apps p = a # as" and "Images p app = Some imApp"
    and "\<not> distinct (map mVolume (appMounts a))"
  shows "\<exists>n. evaluateMounts visit rfs app p = Exit (DuplicatedMount n)"
proof -
  from assms(3) seedMounts_Ok [of "appMounts a" "[]"] seedMounts_shape [of "appMounts a" "[]"]
  obtain n where "seedMounts (appMounts a) [] = Exit (DuplicatedMount n)" by blast
  with assms(1,2) show ?thesis by (simp add: evaluateMounts_def reconcile_def)
qed

section \<open>Properties of the reaper's loops\<close>

lemma remdups_drop_seen:
  "m \<in> set zs \<Longrightarrow> remdups (xs @ m # zs) = remdups (xs @ zs)"
  by (induction xs) auto

lemma collectMounts_None:
  "\<exists>l\<in>set lines. containsStr podID l \<and> length (splitOn CHR '' '' l) \<le> 4 \<Longrightarrow>
   collectMounts podID lines seen acc = None"
  by (induction lines arbitrary: seen acc) (auto simp: Let_def)

lemma collectMounts_Some:
  assumes "\<forall>l\<in>set lines. containsStr podID l \<longrightarrow> 4 < length (splitOn CHR '' '' l)"
    and "distinct acc"
  shows "collectMounts podID lines (set acc) acc =
     Some (rev (remdups (rev (acc @ map (\<lambda>l. splitOn CHR '' '' l ! 4) (filter (containsStr podID) lines)))))"
  using assms
proof (induction lines arbitrary: acc)
  case Nil
  then show ?case by (simp add: distinct_remdups_id)
next
  case (Cons l ls)
  from Cons.prems have wf: "\<forall>l\<in>set ls. containsStr podID l \<longrightarrow> 4 < length (splitOn CHR '' '' l)"
    by simp
  show ?case
  proof (cases "containsStr podID l")
    case False
    with Cons.IH [OF wf Cons.prems(2)] show ?thesis by simp
  next
    case True
    with Cons.prems have len: "\<not> length (splitOn CHR '' '' l) \<le> 4" by auto
    let ?m = "splitOn CHR '' '' l ! 4"
    show ?thesis
    proof (cases "?m \<in> set acc")
      case seen: True
      have "remdups (rev (map (\<lambda>l. splitOn CHR '' '' l ! 4) (filter (containsStr podID) ls)) @ ?m # rev acc)
          = remdups (rev (map (\<lambda>l. splitOn CHR '' '' l ! 4) (filter (containsStr podID) ls)) @ rev acc)"
        using seen by (intro remdups_drop_seen) simp
      with Cons.IH [OF wf Cons.prems(2)] True len seen show ?thesis
        by (simp add: Let_def)
    next
      case fresh: False
      then have d: "distinct (acc @ [?m])" using Cons.prems(2) by simp
      have s: "insert ?m (set acc) = set (acc @ [?m])" by simp
      from Cons.IH [OF wf d] True len fresh show ?thesis
        by (simp add: Let_def s del: set_append)
    qed
  qed
qed

lemma remountAll_prefix: "prefix (fst (remountAll env ds)) (map remountCall ds)"
  by (induction ds) (auto split: prod.splits)

lemma remountAll_ok: "snd (remountAll env ds) \<Longrightarrow> fst (remountAll env ds) = map remountCall ds"
  by (induction ds) (auto split: prod.splits if_splits)

lemma remountAll_all:
  "\<forall>d\<in>set ds. remountOk env d \<Longrightarrow> remountAll env ds = (map remountCall ds, True)"
  by (induction ds) auto

lemma unmountAll_prefix: "prefix (fst (unmountAll env ds)) (map Unmount ds)"
  by (induction ds) (auto split: prod.splits)

lemma unmountAll_all:
  "\<forall>d\<in>set ds. unmountOk env d \<Longrightarrow> unmountAll env ds = (map Unmount ds, True)"
  by (induction ds) auto

lemma strict_prefix_less:
  fixes a b :: string
  shows "strict_prefix b a \<Longrightarrow> b < a"
proof -
  assume "strict_prefix b a"
  then obtain ys where ys: "a = b @ ys" "ys \<noteq> []"
    by (auto simp: strict_prefix_def prefix_def)
  then obtain z zs where "ys = z # zs" by (cases ys) auto
  with ys show "b < a"
    by (simp add: list_less_def lexord_append_rightI)
qed


lemma descending_prefix_order:
  fixes ml :: "string list"
  assumes "distinct ml" and "i < length ml" and "j < length ml"
    and "strict_prefix (rev (sort ml) ! j) (rev (sort ml) ! i)"
  shows "i < j"
proof (rule ccontr)
  let ?u = "rev (sort ml)"
  assume "\<not> i < j"
  then consider "i = j" | "j < i" by linarith
  then show False
  proof cases
    case 1
    with assms(4) show False by simp
  next
    case 2
    have "sorted_wrt (<) (sort ml)"
      using assms(1) by (simp add: strict_sorted_iff)
    then have "sorted_wrt (\<lambda>x y. y < x) ?u"
      by (simp add: sorted_wrt_rev)
    with 2 assms(2) have "?u ! i < ?u ! j"
      by (simp add: sorted_wrt_iff_nth_less)
    moreover from assms(4) have "?u ! j < ?u ! i" by (rule strict_prefix_less)
    ultimately show False by simp
  qed
qed

section \<open>Properties of the orderer\<close>

lemma isDescendant_longer:
  "isDescendant d a \<Longrightarrow> length (segments a) < length (segments d)"
  by (simp add: isDescendant_def prefix_length_less)

lemma isDescendant_irrefl: "\<not> isDescendant a a"
  by (simp add: isDescendant_def)

lemma hasDescendantIn_iff:
  "hasDescendantIn e xs \<longleftrightarrow> (\<exists>d\<in>set xs. isDescendant (meMountPoint d) (meMountPoint e))"
  by (simp add: hasDescendantIn_def list_ex_iff)

lemma extractLeaf_Some:
  "extractLeaf pre xs = Some (x, rest) \<Longrightarrow>
     mset (pre @ xs) = add_mset x (mset rest) \<and> \<not> hasDescendantIn x rest"
proof (induction xs arbitrary: pre)
  case Nil
  then show ?case by simp
next
  case (Cons y ys)
  show ?case
  proof (cases "hasDescendantIn y (pre @ ys)")
    case True
    with Cons.prems have "extractLeaf (pre @ [y]) ys = Some (x, rest)" by simp
    from Cons.IH [OF this] show ?thesis by simp
  next
    case False
    with Cons.prems show ?thesis by auto
  qed
qed

lemma extractLeaf_None:
  "extractLeaf pre xs = None \<Longrightarrow> \<forall>x\<in>set xs. hasDescendantIn x (pre @ xs)"
proof (induction xs arbitrary: pre)
  case Nil
  then show ?case by simp
next
  case (Cons y ys)
  from Cons.prems have y: "hasDescendantIn y (pre @ ys)"
    and rest: "extractLeaf (pre @ [y]) ys = None"
    by (auto split: if_splits)
  from Cons.IH [OF rest] have "\<forall>x\<in>set ys. hasDescendantIn x (pre @ y # ys)" by simp
  moreover from y have "hasDescendantIn y (pre @ y # ys)"
    by (auto simp: hasDescendantIn_iff)
  ultimately show ?case by simp
qed

lemma longest_entry:
  "xs \<noteq> [] \<Longrightarrow> \<exists>x\<in>set xs. \<forall>y\<in>set xs. f y \<le> (f x :: nat)"
proof (induction xs)
  case Nil
  then show ?case by simp
next
  case (Cons a xs)
  show ?case
  proof (cases "xs = []")
    case True
    then show ?thesis by simp
  next
    case False
    from Cons.IH [OF this] obtain x where x: "x \<in> set xs" "\<forall>y\<in>set xs. f y \<le> f x" by blast
    show ?thesis
    proof (cases "f a \<le> f x")
      case True
      with x show ?thesis by auto
    next
      case False
      with x have "\<forall>y\<in>set (a # xs). f y \<le> f a" by auto
      then show ?thesis by auto
    qed
  qed
qed

lemma extractLeaf_finds:
  assumes "xs \<noteq> []"
  shows "extractLeaf [] xs \<noteq> None"
proof
  assume "extractLeaf [] xs = None"
  from extractLeaf_None [OF this]
  have all: "\<forall>x\<in>set xs. \<exists>d\<in>set xs. isDescendant (meMountPoint d) (meMountPoint x)"
    by (simp add: hasDescendantIn_iff)
  from longest_entry [OF assms, of "\<lambda>e. length (segments (meMountPoint e))"]
  obtain x where x: "x \<in> set xs"
    "\<forall>y\<in>set xs. length (segments (meMountPoint y)) \<le> length (segments (meMountPoint x))"
    by blast
  from all x(1) obtain d where "d \<in> set xs" "isDescendant (meMountPoint d) (meMountPoint x)"
    by blast
  with x(2) isDescendant_longer [of "meMountPoint d" "meMountPoint x"] show False
    by fastforce
qed

lemma leavesFirst_mset: "mset (leavesFirst xs) = mset xs"
proof (induction xs rule: leavesFirst.induct)
  case (1 xs)
  show ?case
  proof (cases "extractLeaf [] xs")
    case None
    then show ?thesis by (subst leavesFirst.simps) simp
  next
    case (Some r)
    obtain x rest where r: "r = (x, rest)" by (cases r)
    from "1.IH" [OF Some r [symmetric]] have "mset (leavesFirst rest) = mset rest" by simp
    moreover from extractLeaf_Some [of "[]" xs x rest] Some r
    have "mset xs = add_mset x (mset rest)" by simp
    ultimately show ?thesis using Some r by (subst leavesFirst.simps) simp
  qed
qed

lemma leavesFirst_order:
  "sorted_wrt (\<lambda>a b. \<not> isDescendant (meMountPoint b) (meMountPoint a)) (leavesFirst xs)"
proof (induction xs rule: leavesFirst.induct)
  case (1 xs)
  show ?case
  proof (cases "extractLeaf [] xs")
    case None
    with extractLeaf_finds [of xs] have "xs = []" by auto
    then show ?thesis by (subst leavesFirst.simps) simp
  next
    case (Some r)
    obtain x rest where r: "r = (x, rest)" by (cases r)
    from "1.IH" [OF Some r [symmetric]]
    have ih: "sorted_wrt (\<lambda>a b. \<not> isDescendant (meMountPoint b) (meMountPoint a)) (leavesFirst rest)"
      by simp
    from extractLeaf_Some [of "[]" xs x rest] Some r have "\<not> hasDescendantIn x rest" by simp
    moreover have "set (leavesFirst rest) = set rest"
      using leavesFirst_mset [of rest] by (metis set_mset_mset)
    ultimately have "\<forall>b\<in>set (leavesFirst rest). \<not> isDescendant (meMountPoint b) (meMountPoint x)"
      by (simp add: hasDescendantIn_iff)
    with ih Some r show ?thesis by (subst leavesFirst.simps) simp
  qed
qed

lemma getMountsForPrefix_mset:
  "mset (getMountsForPrefix pre entries) =
     mset (filter (\<lambda>e. isUnder pre (meMountPoint e)) entries)"
  by (simp add: getMountsForPrefix_def leavesFirst_mset latestFirst_def)

lemma mountinfo_under_prefix:
  "filter (\<lambda>e. isUnder ''/my/mount/prefix'' (meMountPoint e)) mountinfo = tl mountinfo"
  by (simp add: mountinfo_def isUnder_def isDescendant_def segments_def)

section \<open>Properties of the setup entry point\<close>

lemma applyMounts_events: "set (fst (applyMounts env ms)) \<subseteq> range EvMount"
  by (induction ms) (auto split: prod.splits)

lemma applyMounts_no_ppid: "applyMounts env ms = (tr, ok) \<Longrightarrow> EvWritePpid \<notin> set tr"
  using applyMounts_events [of env ms] by auto

lemma applyMounts_no_exec: "applyMounts env ms = (tr, ok) \<Longrightarrow> EvExec args \<notin> set tr"
  using applyMounts_events [of env ms] by auto

lemmas stage1_splits = option.splits result.splits prod.splits if_splits execResult.splits

lemma reconcile_first_app:
  assumes "Apps p = a # as" and "Apps p' = a' # as'" and "appMounts a' = appMounts a"
    and "Volumes p' = Volumes p" and "Images p' = Images p"
  shows "reconcile app p' = reconcile app p"
  unfolding reconcile_def assms list.case ..

lemma applyMounts_ok: "applyMounts env ms = (tr, True) \<Longrightarrow> tr = map EvMount ms"
  by (induction ms arbitrary: tr) (auto split: prod.splits if_splits)

lemma stage1_applies_mounts:
  assumes "uuidArg env = Some u" and "loadPod env u = Some p"
    and "EvWritePpid \<in> set (fst (stage1 visit env))"
  shows "\<exists>ops. evaluateMounts visit (rootfsOf env (Root p) (appName (hd (Apps p))))
                  (appName (hd (Apps p))) p = Ok ops
          \<and> length (Apps p) = 1
          \<and> EvMount ` set ops \<subseteq> set (fst (stage1 visit env))"
proof -
  let ?a = "hd (Apps p)"
  let ?rfs = "rootfsOf env (Root p) (appName ?a)"
  have len: "length (Apps p) = 1"
    using assms by (auto simp: stage1_def Let_def split: if_splits)
  obtain args where args: "appApp ?a = Some args"
    using assms len by (cases "appApp ?a") (auto simp: stage1_def Let_def)
  obtain lfd where lfd: "lockFD env = Some lfd"
    using assms len args by (cases "lockFD env") (auto simp: stage1_def Let_def)
  have clo: "setCloExecOk env"
    using assms len args lfd by (auto simp: stage1_def Let_def split: if_splits)
  obtain ops where ev: "evaluateMounts visit ?rfs (appName ?a) p = Ok ops"
    using assms len args lfd clo
    by (cases "evaluateMounts visit ?rfs (appName ?a) p") (auto simp: stage1_def Let_def)
  obtain tr ok where ap: "applyMounts env (systemMounts ?rfs @ ops) = (tr, ok)"
    by force
  obtain tr' e where ee: "enterAndExec env ?rfs args = (tr', e)"
    by force
  have ok: ok
  proof (rule ccontr)
    assume "\<not> ok"
    with assms len args lfd clo ev ap
    have "EvWritePpid \<in> set tr" by (simp add: stage1_def Let_def)
    with applyMounts_no_ppid [OF ap] show False by simp
  qed
  with ap have tr: "tr = map EvMount (systemMounts ?rfs @ ops)"
    by (auto dest: applyMounts_ok)
  have "fst (stage1 visit env) = EvEvaluateMounts ?rfs (appName ?a) # tr @ tr'"
    using assms len args lfd clo ev ap ok ee by (simp add: stage1_def Let_def)
  with tr have "EvMount ` set ops \<subseteq> set (fst (stage1 visit env))" by auto
  with ev len show ?thesis by blast
qed

section \<open>The claims\<close>

subsection \<open>C1: the prefix filter\<close>

text \<open>
  Claim C1. For every mount table and every prefix, \<open>getMountsForPrefix\<close> returns
  exactly the entries whose mount point is the prefix or lies below it segment by
  segment (as a multiset: nothing lost, nothing added, nothing doubled), and an entry
  whose mount point lies below that of another entry of the result stands strictly
  before it. On the table of \<open>TestMountOrdering\<close> and the prefix \<open>/my/mount/prefix\<close>
  the result is the fourteen entries other than \<open>/var/lib/rkt\<close>, in the order of
  the mount ids 219, 218, 217, 210, 209, 184, 183, 182, 146, 145, 180, 144, 121, 116.
\<close>

theorem getMountsForPrefix_descendants_first:
  "mset (getMountsForPrefix pre entries) =
     mset (filter (\<lambda>e. meMountPoint e = pre \<or> isDescendant (meMountPoint e) pre) entries)
   \<and> (\<forall>i j. i < length (getMountsForPrefix pre entries) \<and>
             j < length (getMountsForPrefix pre entries) \<and>
             isDescendant (meMountPoint (getMountsForPrefix pre entries ! i))
                          (meMountPoint (getMountsForPrefix pre entries ! j)) \<longrightarrow> i < j)
   \<and> map meId (getMountsForPrefix ''/my/mount/prefix'' mountinfo) =
       [219, 218, 217, 210, 209, 184, 183, 182, 146, 145, 180, 144, 121, 116]
   \<and> mset (getMountsForPrefix ''/my/mount/prefix'' mountinfo) = mset (tl mountinfo)"
proof (intro conjI allI impI)
  show "mset (getMountsForPrefix pre entries) =
     mset (filter (\<lambda>e. meMountPoint e = pre \<or> isDescendant (meMountPoint e) pre) entries)"
    using getMountsForPrefix_mset [of pre entries] by (simp add: isUnder_def)
next
  fix i j
  let ?r = "getMountsForPrefix pre entries"
  assume a: "i < length ?r \<and> j < length ?r \<and>
     isDescendant (meMountPoint (?r ! i)) (meMountPoint (?r ! j))"
  have s: "sorted_wrt (\<lambda>a b. \<not> isDescendant (meMountPoint b) (meMountPoint a)) ?r"
    unfolding getMountsForPrefix_def by (rule leavesFirst_order)
  show "i < j"
  proof (rule ccontr)
    assume "\<not> i < j"
    then consider "i = j" | "j < i" by linarith
    then show False
    proof cases
      case 1
      with a show False by (simp add: isDescendant_irrefl)
    next
      case 2
      from s have "\<forall>m n. m < n \<longrightarrow> n < length ?r \<longrightarrow>
          \<not> isDescendant (meMountPoint (?r ! n)) (meMountPoint (?r ! m))"
        by (simp add: sorted_wrt_iff_nth_less)
      with 2 a show False by blast
    qed
  qed
next
  show "map meId (getMountsForPrefix ''/my/mount/prefix'' mountinfo) =
       [219, 218, 217, 210, 209, 184, 183, 182, 146, 145, 180, 144, 121, 116]"
    by code_simp
next
  show "mset (getMountsForPrefix ''/my/mount/prefix'' mountinfo) = mset (tl mountinfo)"
    using getMountsForPrefix_mset [of "''/my/mount/prefix''" mountinfo]
    by (simp only: mountinfo_under_prefix)
qed

text \<open>
  Claim C1 at the test's table: the first entry of the result (mount 219) lies below
  the last one (mount 116), and its index is the smaller one.
\<close>

theorem getMountsForPrefix_descendants_first_witness:
  "0 < length (getMountsForPrefix ''/my/mount/prefix'' mountinfo)
   \<and> 13 < length (getMountsForPrefix ''/my/mount/prefix'' mountinfo)
   \<and> isDescendant (meMountPoint (getMountsForPrefix ''/my/mount/prefix'' mountinfo ! 0))
                    (meMountPoint (getMountsForPrefix ''/my/mount/prefix'' mountinfo ! 13))
   \<and> (0::nat) < 13"
proof -
  let ?r = "getMountsForPrefix ''/my/mount/prefix'' mountinfo"
  have h: "0 < length ?r \<and> 13 < length ?r \<and>
           isDescendant (meMountPoint (?r ! 0)) (meMountPoint (?r ! 13))"
    by code_simp
  from getMountsForPrefix_descendants_first [of "''/my/mount/prefix''" mountinfo]
  have "\<forall>i j. i < length ?r \<and> j < length ?r \<and>
          isDescendant (meMountPoint (?r ! i)) (meMountPoint (?r ! j)) \<longrightarrow> i < j"
    by blast
  with h have "(0::nat) < 13" by blast
  with h show ?thesis by blast
qed

subsection \<open>C2: the reaper\<close>

text \<open>
  Claim C2. Let every line that contains the pod identifier have at least five fields
  (a line of the kernel's mount table has ten or more). Then, for every pod identifier,
  with \<open>ml\<close> the mount-point fields of the lines containing the identifier, without
  duplicates and in order of first appearance: the calls the reaper issues are an
  initial segment of the remounts (recursive, private) of \<open>ml\<close> in ascending order
  followed by the unmounts of \<open>ml\<close> in descending order, and all of them with exit
  status 0 when no call fails; in the unmount order a path stands before every proper
  prefix of it, so a child before its parent; and when no line matches nothing is
  issued and the exit status is 0.
\<close>

theorem reap_order:
  fixes lines :: "string list"
  assumes wf: "\<forall>l\<in>set lines. containsStr podID l \<longrightarrow> 4 < length (splitOn CHR '' '' l)"
  shows "\<exists>ml. ml = rev (remdups (rev (map (\<lambda>l. splitOn CHR '' '' l ! 4)
                                          (filter (containsStr podID) lines))))
     \<and> prefix (fst (reap env podID lines))
          (map (\<lambda>d. Remount d (MS_REC OR MS_PRIVATE)) (sort ml) @ map Unmount (rev (sort ml)))
     \<and> ((\<forall>d\<in>set ml. remountOk env d \<and> unmountOk env d) \<longrightarrow>
          reap env podID lines =
            (map (\<lambda>d. Remount d (MS_REC OR MS_PRIVATE)) (sort ml) @ map Unmount (rev (sort ml)),
             Exited 0))
     \<and> (\<forall>i j. i < length ml \<and> j < length ml \<and>
            strict_prefix (rev (sort ml) ! j) (rev (sort ml) ! i) \<longrightarrow> i < j)
     \<and> (ml = [] \<longrightarrow> reap env podID lines = ([], Exited 0))"
proof -
  define ml where "ml = rev (remdups (rev (map (\<lambda>l. splitOn CHR '' '' l ! 4)
                                          (filter (containsStr podID) lines))))"
  let ?full = "map remountCall (sort ml) @ map Unmount (rev (sort ml))"
  have coll: "collectMounts podID lines {} [] = Some ml"
    using collectMounts_Some [OF wf, of "[]"] by (simp add: ml_def)
  have dist: "distinct ml" by (simp add: ml_def)
  have pre: "prefix (fst (reap env podID lines)) ?full"
  proof (cases "ml = []")
    case True
    with coll show ?thesis by (simp add: reap_def)
  next
    case False
    obtain tr ok where r: "remountAll env (sort ml) = (tr, ok)" by force
    obtain tr' ok' where u: "unmountAll env (rev (sort ml)) = (tr', ok')" by force
    show ?thesis
    proof (cases ok)
      case True
      with r remountAll_ok [of env "sort ml"] have "tr = map remountCall (sort ml)" by simp
      moreover from u unmountAll_prefix [of env "rev (sort ml)"]
      have "prefix tr' (map Unmount (rev (sort ml)))" by simp
      ultimately show ?thesis using coll False r u True by (simp add: reap_def)
    next
      case no: False
      from r remountAll_prefix [of env "sort ml"]
      have "prefix tr (map remountCall (sort ml))" by simp
      then have "prefix tr ?full" by (rule prefix_prefix)
      with coll False r no show ?thesis by (simp add: reap_def)
    qed
  qed
  have ok: "reap env podID lines = (?full, Exited 0)"
    if "\<forall>d\<in>set ml. remountOk env d \<and> unmountOk env d"
  proof (cases "ml = []")
    case True
    with coll show ?thesis by (simp add: reap_def)
  next
    case False
    from that have "remountAll env (sort ml) = (map remountCall (sort ml), True)"
      by (intro remountAll_all) simp
    moreover from that have "unmountAll env (rev (sort ml)) = (map Unmount (rev (sort ml)), True)"
      by (intro unmountAll_all) simp
    ultimately show ?thesis using coll False by (simp add: reap_def)
  qed
  have ord: "\<forall>i j. i < length ml \<and> j < length ml \<and>
            strict_prefix (rev (sort ml) ! j) (rev (sort ml) ! i) \<longrightarrow> i < j"
    using descending_prefix_order [OF dist] by blast
  have none: "ml = [] \<longrightarrow> reap env podID lines = ([], Exited 0)"
    using coll by (simp add: reap_def)
  from pre ok ord none show ?thesis unfolding ml_def [symmetric] by blast
qed

text \<open>
  Claim C2 for the mount points \<open>/a\<close>, \<open>/a/b/c\<close>, \<open>/a/b\<close> (the last one twice) of the
  pod: the unmounts go \<open>/a/b/c\<close>, \<open>/a/b\<close>, \<open>/a\<close>, after the three remounts.
\<close>

theorem reap_order_witness:
  "reap allOk podA gcLines =
     ([Remount ''/a'' (MS_REC OR MS_PRIVATE), Remount ''/a/b'' (MS_REC OR MS_PRIVATE),
       Remount ''/a/b/c'' (MS_REC OR MS_PRIVATE),
       Unmount ''/a/b/c'', Unmount ''/a/b'', Unmount ''/a''], Exited 0)"
proof -
  have wf: "\<forall>l\<in>set gcLines. containsStr podA l \<longrightarrow> 4 < length (splitOn CHR '' '' l)"
    by (simp add: gcLines_def)
  from reap_order [OF wf, of allOk]
  obtain ml where ml: "ml = rev (remdups (rev (map (\<lambda>l. splitOn CHR '' '' l ! 4)
                                          (filter (containsStr podA) gcLines))))"
    and ok: "(\<forall>d\<in>set ml. remountOk allOk d \<and> unmountOk allOk d) \<longrightarrow>
          reap allOk podA gcLines =
            (map (\<lambda>d. Remount d (MS_REC OR MS_PRIVATE)) (sort ml) @ map Unmount (rev (sort ml)),
             Exited 0)"
    by blast
  have val: "ml = [''/a'', ''/a/b/c'', ''/a/b'']"
    unfolding ml by (simp add: gcLines_def podA_def)
  have "\<forall>d\<in>set ml. remountOk allOk d \<and> unmountOk allOk d"
    by (simp add: allOk_def)
  with ok have "reap allOk podA gcLines =
      (map (\<lambda>d. Remount d (MS_REC OR MS_PRIVATE)) (sort ml) @ map Unmount (rev (sort ml)),
       Exited 0)"
    by blast
  then show ?thesis by (simp add: val)
qed

subsection \<open>C3: the three operations of a mount\<close>

text \<open>
  The order of the operations: a list that \<open>evaluateMounts\<close> returns is the
  concatenation, over the tuples in the order they are visited, of the shared mark, the
  bind mount and, when the pointer of the tuple reads true at that moment, the
  read-only remount.
\<close>

lemma evaluateMounts_blocks:
  assumes "evaluateMounts visit rfs app p = Ok ops"
  shows "\<exists>nv cur. reconcile app p = Ok (nv, cur) \<and>
     ops = concat (map (\<lambda>(k, t).
       [\<lparr>HostPath = [], TargetPrefixPath = [], RelTargetPath = vSource (tV t),
         Fs = ''none'', Flags = MS_REC OR MS_SHARED\<rparr>,
        \<lparr>HostPath = vSource (tV t), TargetPrefixPath = rfs, RelTargetPath = mPath (tM t),
         Fs = ''none'', Flags = MS_BIND OR MS_REC\<rparr>]
       @ (if readOnlySet cur (vReadOnly (tV t)) then
            [\<lparr>HostPath = [], TargetPrefixPath = rfs, RelTargetPath = mPath (tM t),
              Fs = ''none'', Flags = MS_BIND OR MS_REC OR MS_REMOUNT OR MS_RDONLY\<rparr>]
          else [])) (visit nv))"
proof (cases "reconcile app p")
  case (Ok r)
  obtain nv cur where r: "r = (nv, cur)" by (cases r)
  from assms Ok r show ?thesis
    by (simp add: evaluateMounts_def tupleMounts_explicit)
qed (use assms in \<open>simp_all add: evaluateMounts_def\<close>)

text \<open>
  Claim C3 against the code: the third operation is not emitted exactly when the
  resolved read-only flag is true. In \<open>rwPod\<close> the volume \<open>a\<close> leaves read-only unset and
  its mount point declares it false, so the flag resolves to false, and yet \<open>/a\<close> is
  remounted read-only, because the last mount point, that of \<open>b\<close>, is read-only. In
  \<open>roPod\<close> the flag of \<open>a\<close> resolves to true and no remount of \<open>/a\<close> is emitted. The
  first two operations of every mount are there, in their order.
\<close>

theorem evaluateMounts_remount_mismatch:
  "specResolvedReadOnly \<lparr>vName = ''a'', vSource = ''/srv/a'', vReadOnly = NilPtr\<rparr>
     [\<lparr>mpName = ''a'', mpPath = ''/a'', mpReadOnly = False\<rparr>,
      \<lparr>mpName = ''b'', mpPath = ''/b'', mpReadOnly = True\<rparr>] = False
   \<and> evaluateMounts id ''/rfs'' ''app'' rwPod =
     Ok [\<lparr>HostPath = [], TargetPrefixPath = [], RelTargetPath = ''/srv/a'',
          Fs = ''none'', Flags = MS_REC OR MS_SHARED\<rparr>,
         \<lparr>HostPath = ''/srv/a'', TargetPrefixPath = ''/rfs'', RelTargetPath = ''/a'',
          Fs = ''none'', Flags = MS_BIND OR MS_REC\<rparr>,
         \<lparr>HostPath = [], TargetPrefixPath = ''/rfs'', RelTargetPath = ''/a'',
          Fs = ''none'', Flags = MS_BIND OR MS_REC OR MS_REMOUNT OR MS_RDONLY\<rparr>,
         \<lparr>HostPath = [], TargetPrefixPath = [], RelTargetPath = ''/srv/b'',
          Fs = ''none'', Flags = MS_REC OR MS_SHARED\<rparr>,
         \<lparr>HostPath = ''/srv/b'', TargetPrefixPath = ''/rfs'', RelTargetPath = ''/b'',
          Fs = ''none'', Flags = MS_BIND OR MS_REC\<rparr>,
         \<lparr>HostPath = [], TargetPrefixPath = ''/rfs'', RelTargetPath = ''/b'',
          Fs = ''none'', Flags = MS_BIND OR MS_REC OR MS_REMOUNT OR MS_RDONLY\<rparr>]
   \<and> specResolvedReadOnly \<lparr>vName = ''a'', vSource = ''/srv/a'', vReadOnly = NilPtr\<rparr>
     [\<lparr>mpName = ''a'', mpPath = ''/a'', mpReadOnly = True\<rparr>,
      \<lparr>mpName = ''b'', mpPath = ''/b'', mpReadOnly = False\<rparr>] = True
   \<and> evaluateMounts id ''/rfs'' ''app'' roPod =
     Ok [\<lparr>HostPath = [], TargetPrefixPath = [], RelTargetPath = ''/srv/a'',
          Fs = ''none'', Flags = MS_REC OR MS_SHARED\<rparr>,
         \<lparr>HostPath = ''/srv/a'', TargetPrefixPath = ''/rfs'', RelTargetPath = ''/a'',
          Fs = ''none'', Flags = MS_BIND OR MS_REC\<rparr>,
         \<lparr>HostPath = [], TargetPrefixPath = [], RelTargetPath = ''/srv/b'',
          Fs = ''none'', Flags = MS_REC OR MS_SHARED\<rparr>,
         \<lparr>HostPath = ''/srv/b'', TargetPrefixPath = ''/rfs'', RelTargetPath = ''/b'',
          Fs = ''none'', Flags = MS_BIND OR MS_REC\<rparr>]"
  by (simp add: specResolvedReadOnly_def eval_defs rwPod_def roPod_def pod_defs)

subsection \<open>C4: two runs on the same input\<close>

text \<open>
  The order in which a Go map is enumerated is not fixed: for a pod with the two
  unrelated volumes \<open>a\<close> and \<open>b\<close>, two enumerations give the two blocks in two orders.
\<close>

lemma evaluateMounts_block_order_differs:
  "evaluateMounts id ''/rfs'' ''app'' twoVolPod \<noteq> evaluateMounts rev ''/rfs'' ''app'' twoVolPod"
  by (simp add: eval_defs twoVolPod_def pod_defs)

text \<open>
  Claim C4. For any two orders of enumeration of the map, two runs on the same input
  either fail in the same way, or return lists that are concatenations of the same
  blocks, one block per volume and each block the operations of one tuple in their
  fixed order; the order may differ only between the blocks of different volumes,
  never inside the block of one volume.
\<close>

theorem evaluateMounts_same_blocks:
  assumes "\<And>nv. mset (visit1 nv) = mset nv" and "\<And>nv. mset (visit2 nv) = mset nv"
  shows "(\<exists>bs1 bs2.
            evaluateMounts visit1 rfs app p = Ok (concat bs1) \<and>
            evaluateMounts visit2 rfs app p = Ok (concat bs2) \<and>
            mset bs1 = mset bs2 \<and>
            (\<forall>b\<in>set bs1. \<exists>cur t. b = tupleMounts rfs cur t))
       \<or> (evaluateMounts visit1 rfs app p = evaluateMounts visit2 rfs app p \<and>
          (\<forall>ops. evaluateMounts visit1 rfs app p \<noteq> Ok ops))"
proof (cases "reconcile app p")
  case (Ok r)
  obtain nv cur where r: "r = (nv, cur)" by (cases r)
  let ?f = "\<lambda>(k, t). tupleMounts rfs cur t"
  have "mset (map ?f (visit1 nv)) = mset (map ?f (visit2 nv))"
    by (simp add: assms)
  moreover have "\<forall>b\<in>set (map ?f (visit1 nv)). \<exists>cur t. b = tupleMounts rfs cur t"
    by auto
  moreover have "evaluateMounts visit1 rfs app p = Ok (concat (map ?f (visit1 nv)))"
    "evaluateMounts visit2 rfs app p = Ok (concat (map ?f (visit2 nv)))"
    using Ok r by (simp_all add: evaluateMounts_def)
  ultimately show ?thesis by blast
qed (simp_all add: evaluateMounts_def)

text \<open>Claim C4 for the two enumerations \<open>id\<close> and \<open>rev\<close> of a pod with two volumes.\<close>

theorem evaluateMounts_same_blocks_witness:
  "\<exists>bs1 bs2.
     evaluateMounts id ''/rfs'' ''app'' twoVolPod = Ok (concat bs1) \<and>
     evaluateMounts rev ''/rfs'' ''app'' twoVolPod = Ok (concat bs2) \<and>
     mset bs1 = mset bs2"
proof -
  have ok: "\<exists>ops. evaluateMounts id ''/rfs'' ''app'' twoVolPod = Ok ops"
    by (simp add: eval_defs twoVolPod_def pod_defs)
  have "\<And>nv :: namedVolumeMounts. mset (id nv) = mset nv"
    and "\<And>nv :: namedVolumeMounts. mset (rev nv) = mset nv"
    by simp_all
  from evaluateMounts_same_blocks [of id rev "''/rfs''" "''app''" twoVolPod, OF this] ok
  show ?thesis by blast
qed

subsection \<open>C5: conflicting paths\<close>

text \<open>
  Claim C5, as stated, fails: the mounts of the pod are checked for duplicates first.
  With the mount \<open>data\<close> given twice and an image mount point \<open>data\<close> of another path,
  the process exits on the duplicate and no conflict error is returned.
\<close>

theorem evaluateMounts_conflict_counterexample:
  "\<lparr>mVolume = ''data'', mPath = ''/data''\<rparr> \<in> set (appMounts (hd (Apps conflictDupPod)))
   \<and> Images conflictDupPod ''app'' =
       Some (Some [\<lparr>mpName = ''data'', mpPath = ''/elsewhere'', mpReadOnly = False\<rparr>])
   \<and> evaluateMounts id ''/rfs'' ''app'' conflictDupPod = Exit (DuplicatedMount ''data'')"
  by (simp add: eval_defs conflictDupPod_def pod_defs)

text \<open>
  Claim C5, amended. For every image mount point and pod-level mount of the same name
  and different paths: when no volume name is repeated among the pod-level mounts,
  \<open>evaluateMounts\<close> returns the conflict error; when one is, the process exits on the
  duplicate. In neither case is a list of mounts returned.
\<close>

theorem evaluateMounts_conflict:
  assumes "Images p app = Some (Some mps)" and "Apps p = a # as"
    and "m \<in> set (appMounts a)" and "mp \<in> set mps"
    and "mpName mp = mVolume m" and "mpPath mp \<noteq> mPath m"
  shows "(distinct (map mVolume (appMounts a)) \<longrightarrow>
            (\<exists>n. evaluateMounts visit rfs app p = Error (ConflictingPath n)))
       \<and> (\<not> distinct (map mVolume (appMounts a)) \<longrightarrow>
            (\<exists>n. evaluateMounts visit rfs app p = Exit (DuplicatedMount n)))"
proof (intro conjI impI)
  assume d: "distinct (map mVolume (appMounts a))"
  then obtain nv1 where nv1: "seedMounts (appMounts a) [] = Ok nv1"
    using seedMounts_distinct [of "appMounts a" "[]"] by auto
  from seedMounts_Ok [OF nv1] assms(3)
  have m1: "map_of nv1 (mVolume m) = Some \<lparr>tV = zeroVolume, tM = m\<rparr>" by blast
  have "\<not> (\<exists>nv2. mergeMountPoints mps nv1 = Ok nv2)"
  proof
    assume "\<exists>nv2. mergeMountPoints mps nv1 = Ok nv2"
    then obtain nv2 where nv2: "mergeMountPoints mps nv1 = Ok nv2" ..
    from mergeMountPoints_Ok [OF nv2] m1
    have "map_of nv2 (mVolume m) = Some \<lparr>tV = zeroVolume, tM = m\<rparr>" by blast
    moreover from mergeMountPoints_Ok [OF nv2] assms(4)
    obtain t where "map_of nv2 (mpName mp) = Some t" "mPath (tM t) = mpPath mp" by blast
    ultimately show False using assms(5,6) by auto
  qed
  with mergeMountPoints_shape [of mps nv1]
  obtain n where "mergeMountPoints mps nv1 = Error (ConflictingPath n)" by blast
  with nv1 show "\<exists>n. evaluateMounts visit rfs app p = Error (ConflictingPath n)"
    by (simp add: evaluateMounts_unfold [OF assms(1,2)])
next
  assume nd: "\<not> distinct (map mVolume (appMounts a))"
  with seedMounts_Ok [of "appMounts a" "[]"] seedMounts_shape [of "appMounts a" "[]"]
  obtain n where "seedMounts (appMounts a) [] = Exit (DuplicatedMount n)" by blast
  then show "\<exists>n. evaluateMounts visit rfs app p = Exit (DuplicatedMount n)"
    by (simp add: evaluateMounts_unfold [OF assms(1,2)])
qed

text \<open>Claim C5, amended, for a pod with one mount and one conflicting mount point.\<close>

theorem evaluateMounts_conflict_witness:
  "\<exists>n. evaluateMounts id ''/rfs'' ''app'' conflictPod = Error (ConflictingPath n)"
proof -
  let ?m = "\<lparr>mVolume = ''data'', mPath = ''/data''\<rparr>"
  let ?mp = "\<lparr>mpName = ''data'', mpPath = ''/elsewhere'', mpReadOnly = False\<rparr>"
  let ?a = "\<lparr>appName = ''app'', appApp = Some [''/bin/sh''], appMounts = [?m]\<rparr>"
  have 1: "Images conflictPod ''app'' = Some (Some [?mp])"
    and 2: "Apps conflictPod = ?a # []"
    by (simp_all add: conflictPod_def pod_defs)
  have 3: "?m \<in> set (appMounts ?a)" and 4: "?mp \<in> set [?mp]"
    and 5: "mpName ?mp = mVolume ?m" and 6: "mpPath ?mp \<noteq> mPath ?m"
    by simp_all
  have d: "distinct (map mVolume (appMounts ?a))" by simp
  from evaluateMounts_conflict [OF 1 2 3 4 5 6, of id "''/rfs''"] d
  show ?thesis by blast
qed

subsection \<open>C6: a duplicated mount\<close>

text \<open>
  Claim C6 against the code: with the volume name \<open>data\<close> twice among the pod-level
  mounts, \<open>evaluateMounts\<close> does not return an error to its caller; \<open>log.Fatalf\<close> ends
  the process inside it.
\<close>

theorem evaluateMounts_duplicate_exits:
  "evaluateMounts id ''/rfs'' ''app'' dupPod = Exit (DuplicatedMount ''data'')"
  by (simp add: eval_defs dupPod_def pod_defs)

subsection \<open>C7: the read-only default\<close>

text \<open>
  Claim C7 against the code: the volumes \<open>a\<close> and \<open>b\<close> leave read-only unset, the mount
  point of \<open>a\<close> is read-only and that of \<open>b\<close>, the last one, is not. Both volumes are
  given the address of the same loop variable, which ends holding the mount point of
  \<open>b\<close>: no read-only remount is produced for \<open>/a\<close>.
\<close>

theorem evaluateMounts_readonly_alias:
  "evaluateMounts id ''/rfs'' ''app'' roPod =
     Ok [\<lparr>HostPath = [], TargetPrefixPath = [], RelTargetPath = ''/srv/a'',
          Fs = ''none'', Flags = MS_REC OR MS_SHARED\<rparr>,
         \<lparr>HostPath = ''/srv/a'', TargetPrefixPath = ''/rfs'', RelTargetPath = ''/a'',
          Fs = ''none'', Flags = MS_BIND OR MS_REC\<rparr>,
         \<lparr>HostPath = [], TargetPrefixPath = [], RelTargetPath = ''/srv/b'',
          Fs = ''none'', Flags = MS_REC OR MS_SHARED\<rparr>,
         \<lparr>HostPath = ''/srv/b'', TargetPrefixPath = ''/rfs'', RelTargetPath = ''/b'',
          Fs = ''none'', Flags = MS_BIND OR MS_REC\<rparr>]"
  by (simp add: eval_defs roPod_def pod_defs)

subsection \<open>C8: a volume without a mount\<close>

text \<open>
  Claim C8, as stated, fails: the duplicate check and the conflict check come first.
  With the mount \<open>data\<close> given twice and a volume \<open>spare\<close> that nothing references, the
  process exits on the duplicate and no missing-mount error is returned.
\<close>

theorem evaluateMounts_missing_mount_counterexample:
  "\<lparr>vName = ''spare'', vSource = ''/srv/spare'', vReadOnly = NilPtr\<rparr> \<in> set (Volumes spareVolDupPod)
   \<and> ''spare'' \<notin> mVolume ` set (appMounts (hd (Apps spareVolDupPod)))
   \<and> Images spareVolDupPod ''app'' = Some (Some [])
   \<and> evaluateMounts id ''/rfs'' ''app'' spareVolDupPod = Exit (DuplicatedMount ''data'')"
  by (simp add: eval_defs spareVolDupPod_def pod_defs)

text \<open>
  Claim C8, amended. For every volume of the pod manifest that no pod-level mount and
  no image mount point references: when the loop over the pod-level mounts and the
  first loop over the mount points complete, \<open>evaluateMounts\<close> returns the
  missing-mount error; when the first completes and the second does not, it returns
  the conflict error; when the first does not complete, the process exits on the
  duplicate. In no case is a list of mounts returned.
\<close>

theorem evaluateMounts_missing_mount:
  assumes "Images p app = Some (Some mps)" and "Apps p = a # as"
    and "v \<in> set (Volumes p)"
    and "vName v \<notin> mVolume ` set (appMounts a)" and "vName v \<notin> mpName ` set mps"
  shows "(\<forall>nv1 nv2. seedMounts (appMounts a) [] = Ok nv1 \<and> mergeMountPoints mps nv1 = Ok nv2 \<longrightarrow>
            (\<exists>n. evaluateMounts visit rfs app p = Error (MissingMount n)))
       \<and> (\<forall>nv1. seedMounts (appMounts a) [] = Ok nv1 \<and> (\<forall>nv2. mergeMountPoints mps nv1 \<noteq> Ok nv2) \<longrightarrow>
            (\<exists>n. evaluateMounts visit rfs app p = Error (ConflictingPath n)))
       \<and> ((\<forall>nv1. seedMounts (appMounts a) [] \<noteq> Ok nv1) \<longrightarrow>
            (\<exists>n. evaluateMounts visit rfs app p = Exit (DuplicatedMount n)))"
proof (intro conjI allI impI)
  fix nv1 nv2
  assume "seedMounts (appMounts a) [] = Ok nv1 \<and> mergeMountPoints mps nv1 = Ok nv2"
  then have nv1: "seedMounts (appMounts a) [] = Ok nv1"
    and nv2: "mergeMountPoints mps nv1 = Ok nv2" by simp_all
  from seedMounts_Ok [OF nv1] assms(4) have "map_of nv1 (vName v) = None" by simp
  then have "vName v \<notin> dom (map_of nv1)" by auto
  with mergeMountPoints_Ok [OF nv2] assms(5) have nodom: "vName v \<notin> dom (map_of nv2)" by simp
  have "keyed nv2"
    using seedMounts_keyed [OF nv1 keyed_Nil] mergeMountPoints_keyed [OF nv2] by simp
  from insertVolumes_shape [OF this, of "Volumes p"] insertVolumes_Ok [of "Volumes p" nv2] assms(3) nodom
  obtain n where "insertVolumes (Volumes p) nv2 = Error (MissingMount n)" by blast
  with nv1 nv2 show "\<exists>n. evaluateMounts visit rfs app p = Error (MissingMount n)"
    by (simp add: evaluateMounts_unfold [OF assms(1,2)])
next
  fix nv1
  assume "seedMounts (appMounts a) [] = Ok nv1 \<and> (\<forall>nv2. mergeMountPoints mps nv1 \<noteq> Ok nv2)"
  with mergeMountPoints_shape [of mps nv1]
  obtain n where "seedMounts (appMounts a) [] = Ok nv1" "mergeMountPoints mps nv1 = Error (ConflictingPath n)"
    by blast
  then show "\<exists>n. evaluateMounts visit rfs app p = Error (ConflictingPath n)"
    by (simp add: evaluateMounts_unfold [OF assms(1,2)])
next
  assume "\<forall>nv1. seedMounts (appMounts a) [] \<noteq> Ok nv1"
  with seedMounts_shape [of "appMounts a" "[]"]
  obtain n where "seedMounts (appMounts a) [] = Exit (DuplicatedMount n)" by blast
  then show "\<exists>n. evaluateMounts visit rfs app p = Exit (DuplicatedMount n)"
    by (simp add: evaluateMounts_unfold [OF assms(1,2)])
qed

text \<open>Claim C8, amended, for a pod with one mount and a second, unreferenced volume.\<close>

theorem evaluateMounts_missing_mount_witness:
  "\<exists>n. evaluateMounts id ''/rfs'' ''app'' spareVolPod = Error (MissingMount n)"
proof -
  let ?m = "\<lparr>mVolume = ''data'', mPath = ''/data''\<rparr>"
  let ?a = "\<lparr>appName = ''app'', appApp = Some [''/bin/sh''], appMounts = [?m]\<rparr>"
  let ?v = "\<lparr>vName = ''spare'', vSource = ''/srv/spare'', vReadOnly = NilPtr\<rparr>"
  let ?nv = "[(''data'', \<lparr>tV = zeroVolume, tM = ?m\<rparr>)]"
  have 1: "Images spareVolPod ''app'' = Some (Some [])"
    and 2: "Apps spareVolPod = ?a # []"
    and 3: "?v \<in> set (Volumes spareVolPod)"
    by (simp_all add: spareVolPod_def pod_defs)
  have 4: "vName ?v \<notin> mVolume ` set (appMounts ?a)"
    and 5: "vName ?v \<notin> mpName ` set []"
    by simp_all
  have s: "seedMounts (appMounts ?a) [] = Ok ?nv \<and> mergeMountPoints [] ?nv = Ok ?nv"
    by simp
  from evaluateMounts_missing_mount [OF 1 2 3 4 5, of id "''/rfs''"] s
  show ?thesis by blast
qed

subsection \<open>C9: exit codes\<close>

text \<open>
  Claim C9, as stated, fails: a malformed pod identifier and a failure to load the
  pod both end the process with status 1.
\<close>

theorem stage1_exit_codes_counterexample:
  "uuidArg noUuidEnv = None \<and> snd (stage1 id noUuidEnv) = Exited 1
   \<and> uuidArg noPodEnv = Some ''8d2c6c2f-9a1b-4c55-8f3e-0a1b2c3d4e5f''
   \<and> loadPod noPodEnv ''8d2c6c2f-9a1b-4c55-8f3e-0a1b2c3d4e5f'' = None
   \<and> snd (stage1 id noPodEnv) = Exited 1"
  by (simp add: stage1_def noUuidEnv_def noPodEnv_def baseEnv_def)

text \<open>
  Claim C9, amended. A malformed pod identifier and a failure to load the pod both end
  the process with exit status 1 and before anything is done. Once the ppid file is
  being written, its failure ends the process with status 4; once exec is called, its
  failure ends the process with status 7, and status 0 is returned when it returns
  without error. Status 0 is returned in no other case, status 4 only when the ppid
  write fails, status 7 only when the ppid write went through and clearing
  close-on-exec or exec fails.
\<close>

theorem stage1_exit_codes:
  "(uuidArg env = None \<longrightarrow> stage1 visit env = ([], Exited 1))
   \<and> (uuidArg env = Some u \<and> loadPod env u = None \<longrightarrow> stage1 visit env = ([], Exited 1))
   \<and> (EvWritePpid \<in> set (fst (stage1 visit env)) \<and> \<not> writePpidOk env \<longrightarrow>
        snd (stage1 visit env) = Exited 4)
   \<and> (EvExec args \<in> set (fst (stage1 visit env)) \<and> execOutcome env = ExecError \<longrightarrow>
        snd (stage1 visit env) = Exited 7)
   \<and> (EvExec args \<in> set (fst (stage1 visit env)) \<and> execOutcome env = ExecNil \<longrightarrow>
        snd (stage1 visit env) = Exited 0)
   \<and> (snd (stage1 visit env) = Exited 0 \<longrightarrow>
        execOutcome env = ExecNil \<and> (\<exists>as. EvExec as \<in> set (fst (stage1 visit env))))
   \<and> (snd (stage1 visit env) = Exited 4 \<longrightarrow> \<not> writePpidOk env)
   \<and> (snd (stage1 visit env) = Exited 7 \<longrightarrow>
        writePpidOk env \<and> (\<not> clearCloExecOk env \<or> execOutcome env = ExecError))"
  by (auto simp: stage1_def enterAndExec_def Let_def split: stage1_splits
           dest: applyMounts_no_ppid applyMounts_no_exec)

text \<open>Claim C9, amended, at the four failing environments.\<close>

theorem stage1_exit_codes_witness:
  "stage1 id noUuidEnv = ([], Exited 1)
   \<and> stage1 id noPodEnv = ([], Exited 1)
   \<and> snd (stage1 id ppidFailEnv) = Exited 4
   \<and> snd (stage1 id execFailEnv) = Exited 7"
proof -
  have 1: "uuidArg noUuidEnv = None"
    by (simp add: noUuidEnv_def baseEnv_def)
  have 2: "uuidArg noPodEnv = Some ''8d2c6c2f-9a1b-4c55-8f3e-0a1b2c3d4e5f'' \<and>
           loadPod noPodEnv ''8d2c6c2f-9a1b-4c55-8f3e-0a1b2c3d4e5f'' = None"
    by (simp add: noPodEnv_def baseEnv_def)
  have 3: "EvWritePpid \<in> set (fst (stage1 id ppidFailEnv)) \<and> \<not> writePpidOk ppidFailEnv"
    by (simp add: stage1_def enterAndExec_def systemMounts_def ppidFailEnv_def baseEnv_def
                  eval_defs singleRoPod_def pod_defs Let_def)
  have 4: "EvExec [''/bin/sh''] \<in> set (fst (stage1 id execFailEnv)) \<and>
           execOutcome execFailEnv = ExecError"
    by (simp add: stage1_def enterAndExec_def systemMounts_def execFailEnv_def baseEnv_def
                  eval_defs singleRoPod_def pod_defs Let_def)
  from stage1_exit_codes [where env = noUuidEnv and visit = id] 1
  have a: "stage1 id noUuidEnv = ([], Exited 1)" by blast
  from stage1_exit_codes [where env = noPodEnv and visit = id
      and u = "''8d2c6c2f-9a1b-4c55-8f3e-0a1b2c3d4e5f''"] 2
  have b: "stage1 id noPodEnv = ([], Exited 1)" by blast
  from stage1_exit_codes [where env = ppidFailEnv and visit = id] 3
  have c: "snd (stage1 id ppidFailEnv) = Exited 4" by blast
  from stage1_exit_codes [where env = execFailEnv and visit = id and args = "[''/bin/sh'']"] 4
  have d: "snd (stage1 id execFailEnv) = Exited 7" by blast
  from a b c d show ?thesis by blast
qed

subsection \<open>C10: exactly one app\<close>

text \<open>
  Claim C10. When the pod that was loaded does not have exactly one app, the process
  ends with status 1 and an empty trace: \<open>evaluateMounts\<close> has not been called and no
  mount has been applied. And the pod-level mounts are read from the first app, and
  from it only:
  \<^item> two pods with the same volumes and images whose first apps have the same mounts
    give the same result, whatever their other apps are;
  \<^item> every mount of the first app is in a list that \<open>evaluateMounts\<close> returns, as the
    bind mount on its path under the rootfs;
  \<^item> a volume name repeated among the mounts of the first app ends plan building on
    the duplicate;
  \<^item> when setup gets as far as writing the ppid file, the pod has exactly one app and
    the bind mount of every mount of that app has been applied, under the rootfs of
    that app.
\<close>

theorem stage1_single_app:
  "(uuidArg env = Some u \<and> loadPod env u = Some p \<and> length (Apps p) \<noteq> 1 \<longrightarrow>
      stage1 visit env = ([], Exited 1))
   \<and> (Apps p = a # as \<and> Apps p' = a' # as' \<and> appMounts a' = appMounts a \<and>
      Volumes p' = Volumes p \<and> Images p' = Images p \<longrightarrow>
      evaluateMounts visit rfs app p' = evaluateMounts visit rfs app p)
   \<and> (Apps p = a # as \<and> m \<in> set (appMounts a) \<and> (\<forall>nv. mset (visit nv) = mset nv) \<and>
      evaluateMounts visit rfs app p = Ok ops \<longrightarrow>
      (\<exists>src. \<lparr>HostPath = src, TargetPrefixPath = rfs, RelTargetPath = mPath m,
              Fs = ''none'', Flags = MS_BIND OR MS_REC\<rparr> \<in> set ops))
   \<and> (Apps p = a # as \<and> Images p app = Some imApp \<and>
      \<not> distinct (map mVolume (appMounts a)) \<longrightarrow>
      (\<exists>n. evaluateMounts visit rfs app p = Exit (DuplicatedMount n)))
   \<and> (uuidArg env = Some u \<and> loadPod env u = Some p \<and> (\<forall>nv. mset (visit nv) = mset nv) \<and>
      EvWritePpid \<in> set (fst (stage1 visit env)) \<and> m \<in> set (appMounts (hd (Apps p))) \<longrightarrow>
      length (Apps p) = 1 \<and>
      (\<exists>src. EvMount \<lparr>HostPath = src,
                      TargetPrefixPath = rootfsOf env (Root p) (appName (hd (Apps p))),
                      RelTargetPath = mPath m,
                      Fs = ''none'', Flags = MS_BIND OR MS_REC\<rparr>
               \<in> set (fst (stage1 visit env))))"
proof (intro conjI impI)
  assume "uuidArg env = Some u \<and> loadPod env u = Some p \<and> length (Apps p) \<noteq> 1"
  then show "stage1 visit env = ([], Exited 1)"
    by (simp add: stage1_def)
next
  assume "Apps p = a # as \<and> Apps p' = a' # as' \<and> appMounts a' = appMounts a \<and>
      Volumes p' = Volumes p \<and> Images p' = Images p"
  then have "reconcile app p' = reconcile app p"
    using reconcile_first_app [of p a as p' a' as' app] by blast
  then show "evaluateMounts visit rfs app p' = evaluateMounts visit rfs app p"
    by (simp add: evaluateMounts_def)
next
  assume h: "Apps p = a # as \<and> m \<in> set (appMounts a) \<and> (\<forall>nv. mset (visit nv) = mset nv) \<and>
      evaluateMounts visit rfs app p = Ok ops"
  then have "\<And>nv. mset (visit nv) = mset nv" by blast
  with h show "\<exists>src. \<lparr>HostPath = src, TargetPrefixPath = rfs, RelTargetPath = mPath m,
              Fs = ''none'', Flags = MS_BIND OR MS_REC\<rparr> \<in> set ops"
    using evaluateMounts_binds_mount [of visit rfs app p ops a as m] by blast
next
  assume "Apps p = a # as \<and> Images p app = Some imApp \<and>
      \<not> distinct (map mVolume (appMounts a))"
  then show "\<exists>n. evaluateMounts visit rfs app p = Exit (DuplicatedMount n)"
    using evaluateMounts_duplicate [of p a as app imApp visit rfs] by blast
next
  assume h: "uuidArg env = Some u \<and> loadPod env u = Some p \<and> (\<forall>nv. mset (visit nv) = mset nv) \<and>
      EvWritePpid \<in> set (fst (stage1 visit env)) \<and> m \<in> set (appMounts (hd (Apps p)))"
  with stage1_applies_mounts [of env u p visit]
  show "length (Apps p) = 1" by blast
next
  assume h: "uuidArg env = Some u \<and> loadPod env u = Some p \<and> (\<forall>nv. mset (visit nv) = mset nv) \<and>
      EvWritePpid \<in> set (fst (stage1 visit env)) \<and> m \<in> set (appMounts (hd (Apps p)))"
  let ?a = "hd (Apps p)"
  let ?rfs = "rootfsOf env (Root p) (appName ?a)"
  from h stage1_applies_mounts [of env u p visit]
  obtain ops where ev: "evaluateMounts visit ?rfs (appName ?a) p = Ok ops"
    and len: "length (Apps p) = 1"
    and app: "EvMount ` set ops \<subseteq> set (fst (stage1 visit env))"
    by blast
  from len have ap: "Apps p = ?a # tl (Apps p)" by (cases "Apps p") simp_all
  from h have v: "\<And>nv. mset (visit nv) = mset nv" by blast
  from h have m: "m \<in> set (appMounts ?a)" by blast
  from evaluateMounts_binds_mount [OF ev ap m v]
  obtain src where "\<lparr>HostPath = src, TargetPrefixPath = ?rfs, RelTargetPath = mPath m,
                     Fs = ''none'', Flags = MS_BIND OR MS_REC\<rparr> \<in> set ops"
    by blast
  with app show "\<exists>src. EvMount \<lparr>HostPath = src, TargetPrefixPath = ?rfs, RelTargetPath = mPath m,
                     Fs = ''none'', Flags = MS_BIND OR MS_REC\<rparr> \<in> set (fst (stage1 visit env))"
    by blast
qed

text \<open>
  Claim C10 for a pod with two apps: nothing is done, and dropping its second app does
  not change the result of \<open>evaluateMounts\<close>; and for a pod with one app and the mounts
  \<open>a\<close> and \<open>b\<close>: setup writes the ppid file and the bind mount on \<open>/a\<close> has been applied.
\<close>

theorem stage1_single_app_witness:
  "stage1 id twoAppsEnv = ([], Exited 1)
   \<and> evaluateMounts id ''/rfs'' ''app'' (twoAppsPod\<lparr>Apps := [hd (Apps twoAppsPod)]\<rparr>) =
     evaluateMounts id ''/rfs'' ''app'' twoAppsPod
   \<and> length (Apps twoVolPod) = 1
   \<and> (\<exists>src. EvMount \<lparr>HostPath = src,
                     TargetPrefixPath = rootfsOf twoVolEnv (Root twoVolPod) (appName (hd (Apps twoVolPod))),
                     RelTargetPath = mPath \<lparr>mVolume = ''a'', mPath = ''/a''\<rparr>,
                     Fs = ''none'', Flags = MS_BIND OR MS_REC\<rparr>
              \<in> set (fst (stage1 id twoVolEnv)))"
proof -
  let ?u = "''8d2c6c2f-9a1b-4c55-8f3e-0a1b2c3d4e5f''"
  let ?a = "\<lparr>appName = ''app'', appApp = Some [''/bin/sh''],
             appMounts = [\<lparr>mVolume = ''data'', mPath = ''/data''\<rparr>]\<rparr>"
  let ?b = "\<lparr>appName = ''sidecar'', appApp = Some [''/bin/true''], appMounts = []\<rparr>"
  let ?p' = "twoAppsPod\<lparr>Apps := [hd (Apps twoAppsPod)]\<rparr>"
  let ?m = "\<lparr>mVolume = ''a'', mPath = ''/a''\<rparr>"
  have 1: "uuidArg twoAppsEnv = Some ?u \<and> loadPod twoAppsEnv ?u = Some twoAppsPod \<and>
           length (Apps twoAppsPod) \<noteq> 1"
    by (simp add: twoAppsEnv_def baseEnv_def twoAppsPod_def)
  have 2: "Apps twoAppsPod = ?a # [?b] \<and> Apps ?p' = ?a # [] \<and> appMounts ?a = appMounts ?a \<and>
           Volumes ?p' = Volumes twoAppsPod \<and> Images ?p' = Images twoAppsPod"
    by (simp add: twoAppsPod_def)
  have 3: "uuidArg twoVolEnv = Some ?u \<and> loadPod twoVolEnv ?u = Some twoVolPod \<and>
           (\<forall>nv :: namedVolumeMounts. mset (id nv) = mset nv) \<and>
           EvWritePpid \<in> set (fst (stage1 id twoVolEnv)) \<and>
           ?m \<in> set (appMounts (hd (Apps twoVolPod)))"
    by (simp add: stage1_def enterAndExec_def systemMounts_def twoVolEnv_def baseEnv_def
                  eval_defs twoVolPod_def pod_defs Let_def)
  from stage1_single_app [where env = twoAppsEnv and u = ?u and p = twoAppsPod and visit = id
      and a = ?a and as = "[?b]" and p' = ?p' and a' = ?a and as' = "[]"
      and rfs = "''/rfs''" and app = "''app''"] 1 2
  have a: "stage1 id twoAppsEnv = ([], Exited 1)"
    and b: "evaluateMounts id ''/rfs'' ''app'' ?p' = evaluateMounts id ''/rfs'' ''app'' twoAppsPod"
    by blast+
  from stage1_single_app [where env = twoVolEnv and u = ?u and p = twoVolPod and visit = id
      and m = ?m] 3
  have c: "length (Apps twoVolPod) = 1 \<and>
      (\<exists>src. EvMount \<lparr>HostPath = src,
                      TargetPrefixPath = rootfsOf twoVolEnv (Root twoVolPod) (appName (hd (Apps twoVolPod))),
                      RelTargetPath = mPath ?m,
                      Fs = ''none'', Flags = MS_BIND OR MS_REC\<rparr>
               \<in> set (fst (stage1 id twoVolEnv)))"
    by blast
  from a b c show ?thesis by blast
qed

end
